theory Spec2Isabelle
  imports Complex_Main
begin

section \<open>Python and tensor primitives used by \<open>infer.py\<close>\<close>

text \<open>
  The embedding follows \<open>src/audiobox_aesthetics/infer.py\<close>. Python integers are
  \<open>int\<close>. Floating-point numbers (samples, weights, scores) are idealised as \<open>real\<close>:
  rounding is not modelled. A waveform is the sample row of a mono tensor of shape
  \<open>(1, L)\<close>, so \<open>wav.shape[-1]\<close> is the length of the list. Every exception the
  modelled code can raise is a value of \<open>error\<close>.
\<close>

datatype error =
  ValueError | ZeroDivisionError | RuntimeError | IndexError | KeyError | AssertionError

text \<open>
  Python's \<open>range(start, stop, step)\<close>: the elements \<open>start, start + step, ...\<close>
  before \<open>stop\<close> (after it for a negative step); a zero step raises \<open>ValueError\<close>.
\<close>

function range_from :: "int \<Rightarrow> int \<Rightarrow> int \<Rightarrow> int list" where
  "range_from i stop step =
     (if 0 < step \<and> i < stop then i # range_from (i + step) stop step
      else if step < 0 \<and> stop < i then i # range_from (i + step) stop step
      else [])"
  by pat_completeness auto
termination
  by (relation "measure (\<lambda>(i, stop, step). if 0 < step then nat (stop - i) else nat (i - stop))")
     auto

declare range_from.simps [simp del]

definition py_range :: "int \<Rightarrow> int \<Rightarrow> int \<Rightarrow> error + int list" where
  "py_range start stop step =
     (if step = 0 then Inl ValueError else Inr (range_from start stop step))"

text \<open>
  A slice \<open>xs[start:stop]\<close>: a negative bound counts from the end, and both bounds are
  clipped to \<open>[0, len(xs)]\<close>; the slice is empty when the bounds cross.
\<close>

definition slice_bound :: "nat \<Rightarrow> int \<Rightarrow> nat" where
  "slice_bound n i = (if i < 0 then nat (max (i + int n) 0) else min (nat i) n)"

definition py_slice :: "'a list \<Rightarrow> int \<Rightarrow> int \<Rightarrow> 'a list" where
  "py_slice xs start stop =
     (let lo = slice_bound (length xs) start; hi = slice_bound (length xs) stop
      in take (hi - lo) (drop lo xs))"

text \<open>
  \<open>F.pad(x, (0, n))\<close> appends \<open>n\<close> zeros on the right of the last dimension (a negative
  \<open>n\<close> would crop). \<open>mask[:, 0:n] = True\<close> overwrites the first \<open>n\<close> entries.
\<close>

definition F_pad :: "real list \<Rightarrow> int \<Rightarrow> real list" where
  "F_pad x n = (if 0 \<le> n then x @ replicate (nat n) 0 else take (nat (int (length x) + n)) x)"

definition fill_true :: "bool list \<Rightarrow> int \<Rightarrow> bool list" where
  "fill_true msk n =
     (let hi = slice_bound (length msk) n in replicate hi True @ drop hi msk)"

section \<open>The window segmenter: \<open>make_inference_batch\<close>\<close>

text \<open>
  The four result lists \<open>(wavs, masks, weights, bids)\<close> are built by \<open>append\<close> in two
  nested loops. \<open>window_at\<close> is the body of the inner loop up to the appends (the slice,
  the optional padding, the mask and the weight); the true division
  \<open>wav_ii_len / winlen\<close> raises \<open>ZeroDivisionError\<close> for \<open>winlen = 0\<close>.
\<close>

type_synonym batch_lists = "real list list \<times> bool list list \<times> real list \<times> nat list"

definition window_at :: "real list \<Rightarrow> int \<Rightarrow> bool \<Rightarrow> int \<Rightarrow> real list \<times> bool list \<times> int" where
  "window_at wav winlen pad_zero ii =
     (let wav_ii = py_slice wav ii (ii + winlen);
          wav_ii_len = int (length wav_ii);
          wav_ii' = (if wav_ii_len < winlen \<and> pad_zero
                     then F_pad wav_ii (winlen - wav_ii_len) else wav_ii);
          mask_ii = fill_true (replicate (length wav_ii') False) wav_ii_len
      in (wav_ii', mask_ii, wav_ii_len))"

definition window_step ::
  "real list \<Rightarrow> int \<Rightarrow> bool \<Rightarrow> nat \<Rightarrow> int \<Rightarrow> batch_lists \<Rightarrow> error + batch_lists" where
  "window_step wav winlen pad_zero bid ii acc =
     (case acc of (wavs, masks, weights, bids) \<Rightarrow>
        (case window_at wav winlen pad_zero ii of (wav_ii, mask_ii, wav_ii_len) \<Rightarrow>
           if winlen = 0 then Inl ZeroDivisionError
           else Inr (wavs @ [wav_ii], masks @ [mask_ii],
                     weights @ [real_of_int wav_ii_len / real_of_int winlen],
                     bids @ [bid])))"

fun window_loop ::
  "real list \<Rightarrow> int \<Rightarrow> bool \<Rightarrow> nat \<Rightarrow> int list \<Rightarrow> batch_lists \<Rightarrow> error + batch_lists" where
  "window_loop wav winlen pad_zero bid [] acc = Inr acc"
| "window_loop wav winlen pad_zero bid (ii # iis) acc =
     (case window_step wav winlen pad_zero bid ii acc of
        Inl e \<Rightarrow> Inl e
      | Inr acc' \<Rightarrow> window_loop wav winlen pad_zero bid iis acc')"

fun clip_loop ::
  "int \<Rightarrow> int \<Rightarrow> bool \<Rightarrow> (nat \<times> real list) list \<Rightarrow> batch_lists \<Rightarrow> error + batch_lists" where
  "clip_loop offset winlen pad_zero [] acc = Inr acc"
| "clip_loop offset winlen pad_zero ((bid, wav) # rest) acc =
     (case py_range 0 (int (length wav)) offset of
        Inl e \<Rightarrow> Inl e
      | Inr iis \<Rightarrow>
          (case window_loop wav winlen pad_zero bid iis acc of
             Inl e \<Rightarrow> Inl e
           | Inr acc' \<Rightarrow> clip_loop offset winlen pad_zero rest acc'))"

definition make_inference_batch ::
  "real list list \<Rightarrow> int \<Rightarrow> int \<Rightarrow> int \<Rightarrow> bool \<Rightarrow> error + batch_lists" where
  "make_inference_batch input_wavs hop_size window_size sample_rate pad_zero =
     (let offset = hop_size * sample_rate;
          winlen = window_size * sample_rate
      in clip_loop offset winlen pad_zero (enumerate 0 input_wavs) ([], [], [], []))"

section \<open>The predictor \<open>AesWavlmPredictorMultiOutput\<close>\<close>

subsection \<open>Construction\<close>

text \<open>
  \<open>__init__\<close> assigns the dataclass fields and \<open>dtype\<close>, logs a warning when the
  precision is not in its table, and calls \<open>setup_model\<close>, which loads the checkpoint,
  assigns \<open>model\<close>, \<open>target_transform\<close> and assigns \<open>dtype\<close> again, this time by a
  \<open>dict.get\<close> without default (Python's \<open>None\<close> is \<open>None\<close> here). Reading the
  checkpoint file is outside this file; \<open>checkpoint\<close> holds what \<open>setup_model\<close> takes
  from it: the scoring function of the loaded encoder (batch of windows and masks to one
  list of raw scores per axis name) and the per-axis normalisation constants.
\<close>

datatype torch_dtype = float16 | bfloat16 | float32

record Normalize =
  mean :: real
  std :: real

record checkpoint =
  ckpt_model :: "real list list \<Rightarrow> bool list list \<Rightarrow> (string \<rightharpoonup> real list)"
  ckpt_target_transform :: "string \<Rightarrow> real \<times> real"

record predictor_fields =
  checkpoint_pth :: string
  precision :: string
  batch_size :: int
  sample_rate :: int
  device :: string
  dtype :: "torch_dtype option"

record predictor = predictor_fields +
  model :: "real list list \<Rightarrow> bool list list \<Rightarrow> (string \<rightharpoonup> real list)"
  target_transform :: "string \<Rightarrow> Normalize"

definition AXES_NAME :: "string list" where
  "AXES_NAME = [''CE'', ''CU'', ''PC'', ''PQ'']"

definition precision_dtypes :: "(string \<times> torch_dtype) list" where
  "precision_dtypes = [(''16'', float16), (''bf16'', bfloat16)]"

definition setup_model :: "checkpoint \<Rightarrow> predictor_fields \<Rightarrow> predictor" where
  "setup_model ckpt self =
     \<lparr>checkpoint_pth = checkpoint_pth self,
      precision = precision self,
      batch_size = batch_size self,
      sample_rate = sample_rate self,
      device = device self,
      dtype = map_of precision_dtypes (precision self),
      model = ckpt_model ckpt,
      target_transform =
        (\<lambda>axis. \<lparr>mean = fst (ckpt_target_transform ckpt axis),
                  std = snd (ckpt_target_transform ckpt axis)\<rparr>)\<rparr>"

text \<open>
  The constructor returns the warnings it logged together with the object. Its arguments
  \<open>pth\<close>, \<open>prec\<close>, \<open>bsize\<close> and \<open>dev\<close> are \<open>checkpoint_pth\<close>, \<open>precision\<close>,
  \<open>batch_size\<close> and \<open>device\<close> of the source, whose names are the field selectors here.
\<close>

definition AesWavlmPredictorMultiOutput_init ::
  "checkpoint \<Rightarrow> string \<Rightarrow> string \<Rightarrow> int \<Rightarrow> string \<Rightarrow> string list \<times> predictor" where
  "AesWavlmPredictorMultiOutput_init ckpt pth prec bsize dev =
     (let dtype0 = (case map_of precision_dtypes prec of Some d \<Rightarrow> d | None \<Rightarrow> float32);
          warnings = (if dtype0 = float32
                      then [''Precision '' @ prec @ '' is not supported, using float32 instead.'']
                      else []);
          self = \<lparr>checkpoint_pth = pth, precision = prec, batch_size = bsize,
                  sample_rate = 16000, device = dev, dtype = Some dtype0\<rparr>
      in (warnings, setup_model ckpt self))"

subsection \<open>Tensor operations of the aggregation\<close>

text \<open>
  Modelled from the spec: \<open>Normalize.inverse\<close> is defined in \<open>model/aes_wavlm.py\<close>,
  which is not among the sources; the spec gives the de-normalisation as
  \<open>score = raw * std + mean\<close>, applied to every element of the prediction tensor.
\<close>

definition Normalize_inverse :: "Normalize \<Rightarrow> real list \<Rightarrow> real list" where
  "Normalize_inverse t x = map (\<lambda>raw. raw * std t + mean t) x"

text \<open>
  Dividing one tensor scalar by another never raises: a zero denominator gives \<open>nan\<close>
  for a zero numerator and an infinity otherwise. The denominators here are sums of
  weights, so a zero denominator is \<open>+0.0\<close>. \<open>.item()\<close> turns the result into a Python
  float, which \<open>tfloat\<close> stands for.
\<close>

datatype tfloat = Fin real | PosInf | NegInf | NaN

definition torch_div :: "real \<Rightarrow> real \<Rightarrow> tfloat" where
  "torch_div x y =
     (if y \<noteq> 0 then Fin (x / y)
      else if x = 0 then NaN
      else if 0 < x then PosInf else NegInf)"

text \<open>
  \<open>x[m]\<close> with a boolean tensor \<open>m\<close> keeps the entries of \<open>x\<close> where \<open>m\<close> is true and
  raises \<open>IndexError\<close> when the shapes differ. \<open>torch.stack\<close> raises \<open>RuntimeError\<close>
  for an empty list and for tensors of unequal sizes.
\<close>

definition mask_index :: "'a list \<Rightarrow> bool list \<Rightarrow> error + 'a list" where
  "mask_index x m =
     (if length m \<noteq> length x then Inl IndexError
      else Inr (map fst (filter snd (zip x m))))"

definition torch_stack :: "'a list list \<Rightarrow> error + 'a list list" where
  "torch_stack xs =
     (case xs of
        [] \<Rightarrow> Inl RuntimeError
      | x # rest \<Rightarrow>
          if list_all (\<lambda>y. length y = length x) rest then Inr xs else Inl RuntimeError)"

subsection \<open>\<open>forward_versa\<close>\<close>

text \<open>
  The resampling of one input array by \<open>librosa.resample\<close> is a parameter. The input
  arrays are one-dimensional (mono), so every waveform becomes a tensor of shape
  \<open>(1, L)\<close>. Moving tensors to the device and the \<open>print\<close> of the stacked windows
  have no effect on the result and are left out.
\<close>

definition audio_resample_mono_versa ::
  "(real list \<Rightarrow> int \<Rightarrow> int \<Rightarrow> real list) \<Rightarrow> predictor \<Rightarrow> (real list \<times> int) list
     \<Rightarrow> real list list" where
  "audio_resample_mono_versa librosa_resample self data_list =
     map (\<lambda>(wav, sr). librosa_resample wav sr (sample_rate self)) data_list"

text \<open>
  The score of clip \<open>bii\<close> on one axis:
  \<open>(preds[bids == bii] * weights_bii).sum() / weights_bii.sum()\<close>.
\<close>

definition weighted_pred :: "real list \<Rightarrow> real list \<Rightarrow> nat list \<Rightarrow> nat \<Rightarrow> error + tfloat" where
  "weighted_pred preds weights bids bii =
     (case mask_index weights (map (\<lambda>b. b = bii) bids) of
        Inl e \<Rightarrow> Inl e
      | Inr weights_bii \<Rightarrow>
          (case mask_index preds (map (\<lambda>b. b = bii) bids) of
             Inl e \<Rightarrow> Inl e
           | Inr preds_bii \<Rightarrow>
               Inr (torch_div (sum_list (map2 (*) preds_bii weights_bii))
                              (sum_list weights_bii))))"

text \<open>The loop over \<open>range(bsz)\<close> and the loop over \<open>AXES_NAME\<close> around it.\<close>

fun clip_score_loop :: "real list \<Rightarrow> real list \<Rightarrow> nat list \<Rightarrow> nat list \<Rightarrow> error + tfloat list" where
  "clip_score_loop preds weights bids [] = Inr []"
| "clip_score_loop preds weights bids (bii # rest) =
     (case weighted_pred preds weights bids bii of
        Inl e \<Rightarrow> Inl e
      | Inr v \<Rightarrow>
          (case clip_score_loop preds weights bids rest of
             Inl e \<Rightarrow> Inl e
           | Inr weighted_preds \<Rightarrow> Inr (v # weighted_preds)))"

fun axis_loop ::
  "(string \<rightharpoonup> real list) \<Rightarrow> (string \<Rightarrow> Normalize) \<Rightarrow> real list \<Rightarrow> nat list \<Rightarrow> nat
     \<Rightarrow> string list \<Rightarrow> error + (string \<times> tfloat list) list" where
  "axis_loop preds_all transform weights bids bsz [] = Inr []"
| "axis_loop preds_all transform weights bids bsz (axis # rest) =
     (case preds_all axis of
        None \<Rightarrow> Inl KeyError
      | Some raw \<Rightarrow>
          (case clip_score_loop (Normalize_inverse (transform axis) raw) weights bids [0..<bsz] of
             Inl e \<Rightarrow> Inl e
           | Inr weighted_preds \<Rightarrow>
               (case axis_loop preds_all transform weights bids bsz rest of
                  Inl e \<Rightarrow> Inl e
                | Inr all_result \<Rightarrow> Inr ((axis, weighted_preds) # all_result))))"

text \<open>
  \<open>zip(*xss)\<close> yields the tuples of \<open>i\<close>-th elements up to the shortest list.
  \<open>all_rows_of\<close> is the re-arrangement
  \<open>[dict(zip(all_result.keys(), vv)) for vv in zip(*all_result.values())]\<close>; a row is the
  dictionary in insertion order. The final \<open>json.dumps\<close> renders each row as text and is
  left out, so \<open>forward_versa\<close> returns the rows.
\<close>

definition zip_star :: "'a list list \<Rightarrow> 'a list list" where
  "zip_star xss =
     (case xss of
        [] \<Rightarrow> []
      | xs # rest \<Rightarrow>
          map (\<lambda>i. map (\<lambda>ys. ys ! i) xss) [0..<fold min (map length rest) (length xs)])"

type_synonym row = "(string \<times> tfloat) list"

definition all_rows_of :: "(string \<times> tfloat list) list \<Rightarrow> row list" where
  "all_rows_of all_result =
     map (\<lambda>vv. zip (map fst all_result) vv) (zip_star (map snd all_result))"

definition forward_versa ::
  "(real list \<Rightarrow> int \<Rightarrow> int \<Rightarrow> real list) \<Rightarrow> predictor \<Rightarrow> (real list \<times> int) list
     \<Rightarrow> error + row list" where
  "forward_versa librosa_resample self batch =
     (let bsz = length batch;
          wavs = audio_resample_mono_versa librosa_resample self batch
      in case make_inference_batch wavs 10 10 (sample_rate self) True of
           Inl e \<Rightarrow> Inl e
         | Inr (wavs, masks, weights, bids) \<Rightarrow>
             (case torch_stack wavs of
                Inl e \<Rightarrow> Inl e
              | Inr wavs \<Rightarrow>
                  (case torch_stack masks of
                     Inl e \<Rightarrow> Inl e
                   | Inr masks \<Rightarrow>
                       if \<not> (length wavs = length masks \<and> length masks = length weights
                              \<and> length weights = length bids)
                       then Inl AssertionError
                       else
                         (case axis_loop (model self wavs masks) (target_transform self)
                                 weights bids bsz AXES_NAME of
                            Inl e \<Rightarrow> Inl e
                          | Inr all_result \<Rightarrow> Inr (all_rows_of all_result)))))"

subsection \<open>The chunk loop of \<open>main_predict\<close>\<close>

text \<open>
  Lines 246 to 253 of \<open>main_predict\<close>: the metadata is processed in chunks of
  \<open>batch_size\<close> records, the outputs are concatenated and their number is asserted to be
  the number of records. The method \<open>predictor.forward\<close> called on each chunk is a
  parameter: the class in this file defines \<open>forward_versa\<close> and no method
  \<open>forward\<close>, and \<open>initialize_model\<close> calls the constructor with a keyword
  \<open>data_col\<close> that \<open>__init__\<close> does not take, so the lines before the loop are not
  part of this definition.
\<close>

fun chunk_loop ::
  "('c list \<Rightarrow> error + 'r list) \<Rightarrow> 'c list \<Rightarrow> int \<Rightarrow> int list \<Rightarrow> 'r list \<Rightarrow> error + 'r list" where
  "chunk_loop forward metadata bsize [] outputs = Inr outputs"
| "chunk_loop forward metadata bsize (ii # iis) outputs =
     (case forward (py_slice metadata ii (ii + bsize)) of
        Inl e \<Rightarrow> Inl e
      | Inr output \<Rightarrow> chunk_loop forward metadata bsize iis (outputs @ output))"

definition main_predict_outputs ::
  "('c list \<Rightarrow> error + 'r list) \<Rightarrow> 'c list \<Rightarrow> int \<Rightarrow> error + 'r list" where
  "main_predict_outputs forward metadata bsize =
     (case py_range 0 (int (length metadata)) bsize of
        Inl e \<Rightarrow> Inl e
      | Inr iis \<Rightarrow>
          (case chunk_loop forward metadata bsize iis [] of
             Inl e \<Rightarrow> Inl e
           | Inr outputs \<Rightarrow>
               if length outputs = length metadata then Inr outputs
               else Inl AssertionError))"

subsection \<open>Test doubles for the external collaborators\<close>

text \<open>
  Concrete stand-ins used in the examples: a resampler that hands the array back
  unchanged, a scoring backend that gives the \<open>k\<close>-th window of a batch the raw score
  \<open>k\<close> on every axis, and a predictor constructed from a checkpoint holding this backend
  with mean 0 and standard deviation 1 on every axis.
\<close>

definition same_rate_resample :: "real list \<Rightarrow> int \<Rightarrow> int \<Rightarrow> real list" where
  "same_rate_resample y orig_sr target_sr = y"

definition ramp_backend :: "real list list \<Rightarrow> bool list list \<Rightarrow> (string \<rightharpoonup> real list)" where
  "ramp_backend X M axis = Some (map real [0..<length X])"

definition example_checkpoint :: checkpoint where
  "example_checkpoint =
     \<lparr>ckpt_model = ramp_backend, ckpt_target_transform = (\<lambda>axis. (0, 1))\<rparr>"

definition example_predictor :: predictor where
  "example_predictor =
     snd (AesWavlmPredictorMultiOutput_init example_checkpoint ''checkpoint.pt'' ''bf16'' 1 ''cpu'')"

section \<open>Vocabulary for the proofs\<close>

text \<open>
  \<open>clip_starts\<close> is the list of window starts the inner loop visits for one clip, and
  \<open>batch_windows\<close> lists, in the order of the appends, the triple (clip index, waveform,
  start) of every window of a batch. Both only name what the loops of
  \<open>make_inference_batch\<close> enumerate; the lemmas below connect them to the code.
\<close>

definition clip_starts :: "int \<Rightarrow> real list \<Rightarrow> int list" where
  "clip_starts offset wav = range_from 0 (int (length wav)) offset"

definition batch_windows :: "int \<Rightarrow> nat \<Rightarrow> real list list \<Rightarrow> (nat \<times> real list \<times> int) list" where
  "batch_windows offset n input_wavs =
     concat (map (\<lambda>(bid, wav). map (\<lambda>ii. (bid, wav, ii)) (clip_starts offset wav))
       (enumerate n input_wavs))"

text \<open>
  \<open>clip_idx bids bii\<close> is the set of positions of the batch that carry the clip index
  \<open>bii\<close>, the windows that the mask \<open>bids == bii\<close> selects. \<open>clip_score\<close> is the
  weighted mean of the de-normalised scores over these windows, divided as tensors are.
\<close>

definition clip_idx :: "nat list \<Rightarrow> nat \<Rightarrow> nat set" where
  "clip_idx bids bii = {k. k < length bids \<and> bids ! k = bii}"

definition clip_score :: "Normalize \<Rightarrow> real list \<Rightarrow> real list \<Rightarrow> nat list \<Rightarrow> nat \<Rightarrow> tfloat" where
  "clip_score t raw weights bids bii =
     torch_div (\<Sum>k\<in>clip_idx bids bii. (raw ! k * std t + mean t) * weights ! k)
               (\<Sum>k\<in>clip_idx bids bii. weights ! k)"

section \<open>Facts about the segmenter\<close>

lemma range_from_pos:
  "0 < step \<Longrightarrow>
   range_from i stop step =
     map (\<lambda>k. i + int k * step) [0..<nat ((stop - i + step - 1) div step)]"
proof (induction i stop step rule: range_from.induct)
  case (1 i stop step)
  show ?case
  proof (cases "i < stop")
    case True
    let ?n = "nat ((stop - (i + step) + step - 1) div step)"
    have q: "0 \<le> (stop - i - 1) div step"
      using True "1.prems" by (simp add: pos_imp_zdiv_nonneg_iff)
    have "(stop - i + step - 1) div step = (stop - i - 1) div step + 1"
      using "1.prems" div_add_self2[of step "stop - i - 1"] by (simp add: algebra_simps)
    then have n: "nat ((stop - i + step - 1) div step) = Suc ?n"
      using q by (simp add: nat_add_distrib)
    have "range_from i stop step = i # range_from (i + step) stop step"
      using True "1.prems" by (subst range_from.simps) simp
    also have "\<dots> = i # map (\<lambda>k. i + step + int k * step) [0..<?n]"
      using "1.IH"(1) True "1.prems" by simp
    also have "\<dots> = map (\<lambda>k. i + int k * step) [0..<Suc ?n]"
      by (simp add: upt_conv_Cons map_Suc_upt[symmetric] del: upt_Suc) (simp add: algebra_simps)
    finally show ?thesis using n by simp
  next
    case False
    then have "(stop - i + step - 1) div step \<le> (step - 1) div step"
      using "1.prems" by (intro zdiv_mono1) simp_all
    then have "(stop - i + step - 1) div step \<le> 0"
      using "1.prems" by (simp add: div_pos_pos_trivial)
    moreover have "range_from i stop step = []"
      using False "1.prems" by (subst range_from.simps) simp
    ultimately show ?thesis by simp
  qed
qed

lemma window_loop_append:
  "winlen \<noteq> 0 \<Longrightarrow>
   window_loop wav winlen pad_zero bid iis (a, b, c, d) =
     Inr (a @ map (\<lambda>ii. fst (window_at wav winlen pad_zero ii)) iis,
          b @ map (\<lambda>ii. fst (snd (window_at wav winlen pad_zero ii))) iis,
          c @ map (\<lambda>ii. real_of_int (snd (snd (window_at wav winlen pad_zero ii)))
                          / real_of_int winlen) iis,
          d @ map (\<lambda>ii. bid) iis)"
proof (induction iis arbitrary: a b c d)
  case Nil
  show ?case by simp
next
  case (Cons ii iis)
  show ?case
    using Cons.prems
    by (simp add: window_step_def Cons.IH split: prod.splits)
qed

lemma clip_loop_append:
  "offset \<noteq> 0 \<Longrightarrow> winlen \<noteq> 0 \<Longrightarrow>
   clip_loop offset winlen pad_zero (enumerate n input_wavs) (a, b, c, d) =
     Inr (a @ map (\<lambda>(bid, wav, ii). fst (window_at wav winlen pad_zero ii))
                (batch_windows offset n input_wavs),
          b @ map (\<lambda>(bid, wav, ii). fst (snd (window_at wav winlen pad_zero ii)))
                (batch_windows offset n input_wavs),
          c @ map (\<lambda>(bid, wav, ii). real_of_int (snd (snd (window_at wav winlen pad_zero ii)))
                          / real_of_int winlen)
                (batch_windows offset n input_wavs),
          d @ map fst (batch_windows offset n input_wavs))"
proof (induction input_wavs arbitrary: n a b c d)
  case Nil
  show ?case by (simp add: batch_windows_def)
next
  case (Cons wav rest)
  have bw: "batch_windows offset n (wav # rest) =
      map (\<lambda>ii. (n, wav, ii)) (clip_starts offset wav) @ batch_windows offset (Suc n) rest"
    by (simp add: batch_windows_def)
  show ?case
    using Cons.prems
    by (simp add: py_range_def window_loop_append Cons.IH bw clip_starts_def o_def)
qed

lemma make_inference_batch_eq:
  assumes "offset = hop_size * rate" and "winlen = window_size * rate"
    and "offset \<noteq> 0" and "winlen \<noteq> 0"
  shows "make_inference_batch input_wavs hop_size window_size rate pad_zero =
     Inr (map (\<lambda>(bid, wav, ii). fst (window_at wav winlen pad_zero ii))
            (batch_windows offset 0 input_wavs),
          map (\<lambda>(bid, wav, ii). fst (snd (window_at wav winlen pad_zero ii)))
            (batch_windows offset 0 input_wavs),
          map (\<lambda>(bid, wav, ii).
                 real_of_int (snd (snd (window_at wav winlen pad_zero ii))) / real_of_int winlen)
            (batch_windows offset 0 input_wavs),
          map fst (batch_windows offset 0 input_wavs))"
  unfolding make_inference_batch_def Let_def assms(1,2)[symmetric]
  using clip_loop_append[OF assms(3,4), of pad_zero 0 input_wavs "[]" "[]" "[]" "[]"]
  by simp

lemma batch_windows_mem:
  "(bid, wav, ii) \<in> set (batch_windows offset n input_wavs) \<Longrightarrow>
   n \<le> bid \<and> bid < n + length input_wavs \<and> wav = input_wavs ! (bid - n) \<and>
   ii \<in> set (clip_starts offset wav)"
  by (auto simp: batch_windows_def in_set_enumerate_eq)

lemma batch_windows_filter:
  "length (filter (\<lambda>x. fst x = bid) (batch_windows offset n input_wavs)) =
     (if n \<le> bid \<and> bid < n + length input_wavs
      then length (clip_starts offset (input_wavs ! (bid - n))) else 0)"
proof (induction input_wavs arbitrary: n)
  case Nil
  show ?case by (auto simp: batch_windows_def)
next
  case (Cons wav rest)
  have bw: "batch_windows offset n (wav # rest) =
      map (\<lambda>ii. (n, wav, ii)) (clip_starts offset wav) @ batch_windows offset (Suc n) rest"
    by (simp add: batch_windows_def)
  have flt: "filter (\<lambda>x. fst x = bid) (map (\<lambda>ii. (n, wav, ii)) (clip_starts offset wav)) =
      (if n = bid then map (\<lambda>ii. (n, wav, ii)) (clip_starts offset wav) else [])"
    by (induction "clip_starts offset wav") auto
  note ih = Cons.IH[of "Suc n"]
  show ?case
  proof (cases "bid = n")
    case True
    then have "length (filter (\<lambda>x. fst x = bid) (batch_windows offset (Suc n) rest)) = 0"
      using ih by simp
    then show ?thesis using True by (simp add: bw flt)
  next
    case False
    then show ?thesis using ih by (auto simp: bw flt Suc_diff_le)
  qed
qed

lemma batch_windows_count:
  "length (filter (\<lambda>b. b = bid) (map fst (batch_windows offset n input_wavs))) =
     (if n \<le> bid \<and> bid < n + length input_wavs
      then length (clip_starts offset (input_wavs ! (bid - n))) else 0)"
  using batch_windows_filter[of bid offset n input_wavs] by (simp add: filter_map o_def)

lemma clip_starts_pos:
  "0 < offset \<Longrightarrow>
   clip_starts offset wav =
     map (\<lambda>k. int k * offset) [0..<nat ((int (length wav) + offset - 1) div offset)]"
  by (simp add: clip_starts_def range_from_pos)



lemma clip_starts_mem:
  assumes "0 < offset" and "ii \<in> set (clip_starts offset wav)"
  shows "0 \<le> ii \<and> ii < int (length wav)"
proof -
  let ?L = "int (length wav)"
  obtain k where "k < nat ((?L + offset - 1) div offset)" and ii: "ii = int k * offset"
    using assms by (auto simp: clip_starts_pos)
  then have k: "int k < (?L + offset - 1) div offset" by simp
  have "int k + 1 \<le> (?L + offset - 1) div offset" using k by simp
  then have "(int k + 1) * offset \<le> ((?L + offset - 1) div offset) * offset"
    using assms(1) by (simp only: mult_le_cancel_right) simp
  also have "\<dots> \<le> ?L + offset - 1"
    using assms(1) pos_mod_sign[of offset "?L + offset - 1"]
      div_mult_mod_eq[of "?L + offset - 1" offset] by linarith
  finally have "int k * offset < ?L" by (simp add: algebra_simps)
  then show ?thesis using ii assms(1) by simp
qed

lemma window_at_eq:
  assumes "0 < winlen" and "0 \<le> ii" and "ii < int (length wav)"
  shows "window_at wav winlen pad_zero ii =
     (let n = min (nat winlen) (length wav - nat ii)
      in (take (nat winlen) (drop (nat ii) wav) @ (if pad_zero then replicate (nat winlen - n) 0 else []),
          replicate n True @ (if pad_zero then replicate (nat winlen - n) False else []),
          int n))"
proof -
  define n where "n = min (nat winlen) (length wav - nat ii)"
  define s where "s = take (nat winlen) (drop (nat ii) wav)"
  have lo: "slice_bound (length wav) ii = nat ii"
    using assms by (simp add: slice_bound_def)
  have hi: "slice_bound (length wav) (ii + winlen) = min (nat ii + nat winlen) (length wav)"
    using assms by (simp add: slice_bound_def nat_add_distrib)
  have "take (min (nat ii + nat winlen) (length wav) - nat ii) (drop (nat ii) wav) = s"
    unfolding s_def by (cases "nat ii + nat winlen \<le> length wav") (simp_all add: min_def)
  then have sl: "py_slice wav ii (ii + winlen) = s"
    by (simp add: py_slice_def lo hi Let_def)
  have len: "length s = n" by (simp add: s_def n_def min.commute)
  have le: "n \<le> nat winlen" by (simp add: n_def)
  have lt: "int n < winlen \<longleftrightarrow> n < nat winlen" using assms(1) by linarith
  have ile: "int n \<le> winlen" using le assms(1) by linarith
  have pd: "nat (winlen - int n) = nat winlen - n" using assms(1) by linarith
  have sb: "\<And>m. n \<le> m \<Longrightarrow> slice_bound m (int n) = n"
    by (simp add: slice_bound_def)
  have ft: "\<And>m. n \<le> m \<Longrightarrow>
      fill_true (replicate m False) (int n) = replicate n True @ replicate (m - n) False"
    by (simp add: fill_true_def Let_def sb)
  have "window_at wav winlen pad_zero ii =
      (s @ (if pad_zero then replicate (nat winlen - n) 0 else []),
       replicate n True @ (if pad_zero then replicate (nat winlen - n) False else []),
       int n)"
  proof (cases "n < nat winlen \<and> pad_zero")
    case True
    have "window_at wav winlen pad_zero ii =
        (s @ replicate (nat winlen - n) 0,
         fill_true (replicate (length (s @ replicate (nat winlen - n) 0)) False) (int n), int n)"
      using True unfolding window_at_def sl Let_def F_pad_def
      by (simp add: len lt pd ile)
    moreover have "length (s @ replicate (nat winlen - n) 0) = nat winlen"
      using le by (simp add: len)
    ultimately show ?thesis using True le by (simp add: ft)
  next
    case False
    have "window_at wav winlen pad_zero ii = (s, fill_true (replicate n False) (int n), int n)"
      using False unfolding window_at_def sl Let_def by (auto simp: len lt)
    moreover have "pad_zero \<Longrightarrow> nat winlen - n = 0" using False le by simp
    ultimately show ?thesis by (simp add: ft)
  qed
  then show ?thesis by (simp add: Let_def n_def s_def)
qed

lemma batch_windows_nth:
  assumes "0 < offset" and "k < length (batch_windows offset 0 input_wavs)"
  obtains bid ii where "batch_windows offset 0 input_wavs ! k = (bid, input_wavs ! bid, ii)"
    and "bid < length input_wavs" and "0 \<le> ii" and "ii < int (length (input_wavs ! bid))"
proof -
  obtain bid wav ii where q: "batch_windows offset 0 input_wavs ! k = (bid, wav, ii)"
    by (cases "batch_windows offset 0 input_wavs ! k") auto
  have "(bid, wav, ii) \<in> set (batch_windows offset 0 input_wavs)"
    using assms(2) q nth_mem by metis
  from batch_windows_mem[OF this]
  have "bid < length input_wavs" "wav = input_wavs ! bid" "ii \<in> set (clip_starts offset wav)"
    by auto
  with clip_starts_mem[OF assms(1), of ii wav] q that show thesis by blast
qed

lemma make_inference_batch_nth:
  assumes off: "0 < hop_size * rate" and win: "0 < window_size * rate"
    and mib: "make_inference_batch input_wavs hop_size window_size rate pad_zero =
                Inr (wavs, masks, weights, bids)"
    and k: "k < length weights"
  obtains ii n where "bids ! k < length input_wavs" and "0 \<le> ii"
    and "ii < int (length (input_wavs ! (bids ! k)))"
    and "n = min (nat (window_size * rate)) (length (input_wavs ! (bids ! k)) - nat ii)"
    and "window_at (input_wavs ! (bids ! k)) (window_size * rate) pad_zero ii =
           (wavs ! k, masks ! k, int n)"
    and "weights ! k = real n / real (nat (window_size * rate))"
    and "k < length wavs" and "k < length masks" and "k < length bids"
proof -
  define offset where "offset = hop_size * rate"
  define winlen where "winlen = window_size * rate"
  let ?Q = "batch_windows offset 0 input_wavs"
  have pos: "0 < offset" "0 < winlen" using off win by (simp_all add: offset_def winlen_def)
  then have ne: "offset \<noteq> 0" "winlen \<noteq> 0" by simp_all
  from mib[unfolded make_inference_batch_eq[OF offset_def winlen_def ne]]
  have X: "wavs = map (\<lambda>(bid, wav, ii). fst (window_at wav winlen pad_zero ii)) ?Q"
    and M: "masks = map (\<lambda>(bid, wav, ii). fst (snd (window_at wav winlen pad_zero ii))) ?Q"
    and Wt: "weights = map (\<lambda>(bid, wav, ii).
                 real_of_int (snd (snd (window_at wav winlen pad_zero ii))) / real_of_int winlen) ?Q"
    and B: "bids = map fst ?Q"
    by blast+
  have kQ: "k < length ?Q" using k by (simp add: Wt)
  obtain bid ii where q: "?Q ! k = (bid, input_wavs ! bid, ii)"
    and b: "bid < length input_wavs" and i: "0 \<le> ii" "ii < int (length (input_wavs ! bid))"
    using batch_windows_nth[OF pos(1) kQ] by blast
  define n where "n = min (nat winlen) (length (input_wavs ! bid) - nat ii)"
  have bk: "bids ! k = bid" using kQ q by (simp add: B)
  have wa: "window_at (input_wavs ! bid) winlen pad_zero ii =
      (fst (window_at (input_wavs ! bid) winlen pad_zero ii),
       fst (snd (window_at (input_wavs ! bid) winlen pad_zero ii)), int n)"
    unfolding window_at_eq[OF pos(2) i, of pad_zero] Let_def n_def by simp
  have 1: "window_at (input_wavs ! bid) winlen pad_zero ii = (wavs ! k, masks ! k, int n)"
    using kQ q wa by (simp add: X M)
  have "weights ! k = real_of_int (int n) / real_of_int winlen"
    using kQ q 1 by (simp add: Wt)
  then have 2: "weights ! k = real n / real (nat winlen)"
    using pos(2) by simp
  show thesis
    using that[of ii n] b i 1 2 kQ n_def unfolding bk winlen_def by (simp add: X M B)
qed

lemma make_inference_batch_lengths:
  assumes "0 < hop_size * rate" and "0 < window_size * rate"
    and "make_inference_batch input_wavs hop_size window_size rate pad_zero =
           Inr (wavs, masks, weights, bids)"
  shows "length masks = length wavs \<and> length weights = length wavs \<and> length bids = length wavs"
proof -
  define offset where "offset = hop_size * rate"
  define winlen where "winlen = window_size * rate"
  have ne: "offset \<noteq> 0" "winlen \<noteq> 0"
    using assms(1,2) unfolding offset_def winlen_def by linarith+
  show ?thesis
    using assms(3) unfolding make_inference_batch_eq[OF offset_def winlen_def ne] by auto
qed

lemma unequal_windows_example:
  assumes off: "0 < hop_size * rate" and win: "1 < window_size * rate"
  shows "\<exists>wav wavs masks weights bids.
           make_inference_batch [wav] hop_size window_size rate False =
             Inr (wavs, masks, weights, bids) \<and>
           length wavs = 2 \<and> length (wavs ! 0) \<noteq> length (wavs ! 1)"
proof -
  define offset where "offset = hop_size * rate"
  define winlen where "winlen = window_size * rate"
  define wav :: "real list" where "wav = replicate (nat offset + 1) 0"
  have pos: "0 < offset" "1 < winlen" using off win by (simp_all add: offset_def winlen_def)
  then have ne: "offset \<noteq> 0" "winlen \<noteq> 0" and wpos: "0 < winlen" by simp_all
  have L: "int (length wav) = offset + 1" using pos(1) by (simp add: wav_def)
  have "(int (length wav) + offset - 1) div offset = 2"
    using pos(1) by (simp add: L)
  then have cs: "clip_starts offset wav = [0, offset]"
    by (simp add: clip_starts_pos[OF pos(1)] upt_rec numeral_2_eq_2)
  have Q: "batch_windows offset 0 [wav] = [(0, wav, 0), (0, wav, offset)]"
    by (simp add: batch_windows_def cs)
  have w0: "fst (window_at wav winlen False 0) = take (nat winlen) wav"
    using window_at_eq[OF wpos, of 0 wav False] L pos(1) by (simp add: Let_def)
  have w1: "fst (window_at wav winlen False offset) = take (nat winlen) (drop (nat offset) wav)"
    using window_at_eq[OF wpos, of offset wav False] L pos(1) by (simp add: Let_def)
  have nats: "1 \<le> nat offset" "2 \<le> nat winlen" using pos by linarith+
  have l0: "2 \<le> length (take (nat winlen) wav)"
    using nats by (simp add: wav_def)
  have l1: "length (take (nat winlen) (drop (nat offset) wav)) = 1"
    using nats by (simp add: wav_def)
  define X where "X = map (\<lambda>(bid, wav, ii). fst (window_at wav winlen False ii))
                        (batch_windows offset 0 [wav])"
  have X: "X = [take (nat winlen) wav, take (nat winlen) (drop (nat offset) wav)]"
    by (simp add: X_def Q w0 w1)
  have "X ! 0 = take (nat winlen) wav" "X ! 1 = take (nat winlen) (drop (nat offset) wav)"
    by (simp_all add: X)
  then have "length (X ! 0) \<noteq> length (X ! 1)"
    using l0 l1 by (simp only:)
  moreover have "length X = 2" by (simp add: X)
  ultimately have "length X = 2" "length (X ! 0) \<noteq> length (X ! 1)" by blast+
  note facts = this
  have "make_inference_batch [wav] hop_size window_size rate False =
      Inr (X,
           map (\<lambda>(bid, wav, ii). fst (snd (window_at wav winlen False ii)))
             (batch_windows offset 0 [wav]),
           map (\<lambda>(bid, wav, ii).
                  real_of_int (snd (snd (window_at wav winlen False ii))) / real_of_int winlen)
             (batch_windows offset 0 [wav]),
           map fst (batch_windows offset 0 [wav]))"
    unfolding X_def by (rule make_inference_batch_eq[OF offset_def winlen_def ne])
  then show ?thesis using facts by blast
qed

section \<open>Facts about the aggregation\<close>

lemma mask_select_nth:
  "length x = length bs \<Longrightarrow>
   map fst (filter snd (zip x (map P bs))) =
     map (\<lambda>k. x ! k) (filter (\<lambda>k. P (bs ! k)) [0..<length bs])"
proof (induction bs arbitrary: x)
  case Nil
  then show ?case by simp
next
  case (Cons b bs)
  then obtain y ys where x: "x = y # ys" and l: "length ys = length bs"
    by (cases x) auto
  have up: "[0..<length (b # bs)] = 0 # map Suc [0..<length bs]"
    by (simp add: upt_conv_Cons map_Suc_upt del: upt_Suc)
  show ?case
    unfolding up x using Cons.IH[OF l] by (simp add: filter_map o_def)
qed

lemma sum_list_select:
  "sum_list (map f (filter Q [0..<n])) = sum f {k. k < n \<and> Q k}"
proof -
  have "distinct (filter Q [0..<n])" by simp
  then have "sum_list (map f (filter Q [0..<n])) = sum f (set (filter Q [0..<n]))"
    by (rule sum_list_distinct_conv_sum_set)
  moreover have "set (filter Q [0..<n]) = {k. k < n \<and> Q k}" by auto
  ultimately show ?thesis by simp
qed

lemma weighted_pred_eq:
  assumes "length preds = length bids" and "length weights = length bids"
  shows "weighted_pred preds weights bids bii =
     Inr (torch_div (\<Sum>k\<in>clip_idx bids bii. preds ! k * weights ! k)
                    (\<Sum>k\<in>clip_idx bids bii. weights ! k))"
proof -
  let ?idx = "filter (\<lambda>k. bids ! k = bii) [0..<length bids]"
  have w: "map fst (filter snd (zip weights (map (\<lambda>b. b = bii) bids))) = map (\<lambda>k. weights ! k) ?idx"
    by (rule mask_select_nth[OF assms(2)])
  have p: "map fst (filter snd (zip preds (map (\<lambda>b. b = bii) bids))) = map (\<lambda>k. preds ! k) ?idx"
    by (rule mask_select_nth[OF assms(1)])
  have pw: "map2 (*) (map (\<lambda>k. preds ! k) ?idx) (map (\<lambda>k. weights ! k) ?idx) =
      map (\<lambda>k. preds ! k * weights ! k) ?idx"
    by (simp add: zip_map_map map_zip_map2 zip_same_conv_map)
  show ?thesis
    using assms unfolding weighted_pred_def mask_index_def
    by (simp add: w p pw sum_list_select clip_idx_def)
qed

lemma clip_score_loop_eq:
  assumes "length preds = length bids" and "length weights = length bids"
  shows "clip_score_loop preds weights bids biis =
     Inr (map (\<lambda>bii. torch_div (\<Sum>k\<in>clip_idx bids bii. preds ! k * weights ! k)
                                (\<Sum>k\<in>clip_idx bids bii. weights ! k)) biis)"
  by (induction biis) (simp_all add: weighted_pred_eq[OF assms])

lemma clip_score_loop_inverse:
  assumes "length raw = length bids" and "length weights = length bids"
  shows "clip_score_loop (Normalize_inverse t raw) weights bids biis =
           Inr (map (clip_score t raw weights bids) biis)"
proof -
  have l: "length (Normalize_inverse t raw) = length bids"
    using assms(1) by (simp add: Normalize_inverse_def)
  have "\<And>bii. (\<Sum>k\<in>clip_idx bids bii. Normalize_inverse t raw ! k * weights ! k) =
      (\<Sum>k\<in>clip_idx bids bii. (raw ! k * std t + mean t) * weights ! k)"
    using assms(1) by (intro sum.cong) (simp_all add: Normalize_inverse_def clip_idx_def)
  then show ?thesis
    unfolding clip_score_loop_eq[OF l assms(2)] clip_score_def by simp
qed

lemma axis_loop_eq:
  assumes "\<And>axis. axis \<in> set axes \<Longrightarrow> \<exists>raw. preds_all axis = Some raw \<and> length raw = length bids"
    and "length weights = length bids"
  shows "axis_loop preds_all transform weights bids bsz axes =
     Inr (map (\<lambda>axis. (axis, map (clip_score (transform axis) (the (preds_all axis)) weights bids)
                               [0..<bsz])) axes)"
  using assms(1)
proof (induction axes)
  case Nil
  show ?case by simp
next
  case (Cons axis rest)
  obtain raw where r: "preds_all axis = Some raw" "length raw = length bids"
    using Cons.prems[of axis] by auto
  have "axis_loop preds_all transform weights bids bsz rest =
     Inr (map (\<lambda>axis. (axis, map (clip_score (transform axis) (the (preds_all axis)) weights bids)
                               [0..<bsz])) rest)"
    using Cons.prems by (intro Cons.IH) simp
  then show ?case
    by (simp add: r clip_score_loop_inverse[OF r(2) assms(2)])
qed

lemma fold_min_const: "\<forall>y\<in>set ys. y = n \<Longrightarrow> fold min ys n = (n::nat)"
  by (induction ys) simp_all

lemma all_rows_of_eq:
  assumes "axes \<noteq> []"
  shows "all_rows_of (map (\<lambda>axis. (axis, map (f axis) [0..<bsz])) axes) =
           map (\<lambda>bii. map (\<lambda>axis. (axis, f axis bii)) axes) [0..<bsz]"
proof -
  obtain a rest where ax: "axes = a # rest" using assms by (cases axes) auto
  have "fold min (map length (map (\<lambda>axis. map (f axis) [0..<bsz]) rest)) bsz = bsz"
    by (rule fold_min_const) auto
  then have z: "zip_star (map snd (map (\<lambda>axis. (axis, map (f axis) [0..<bsz])) axes)) =
      map (\<lambda>i. map (\<lambda>axis. f axis i) axes) [0..<bsz]"
    unfolding zip_star_def ax by (simp add: o_def)
  show ?thesis
    unfolding all_rows_of_def z by (simp add: o_def zip_map2 zip_same_conv_map)
qed

lemma torch_stack_same_length:
  assumes "xs \<noteq> []" and "\<And>x. x \<in> set xs \<Longrightarrow> length x = n"
  shows "torch_stack xs = Inr xs"
proof -
  obtain x rest where xs: "xs = x # rest" using assms(1) by (cases xs) auto
  have "list_all (\<lambda>y. length y = length x) rest"
    using assms(2) unfolding xs by (simp add: list_all_iff)
  then show ?thesis by (simp add: torch_stack_def xs)
qed

lemma clip_starts_empty_iff:
  "0 < offset \<Longrightarrow> clip_starts offset wav = [] \<longleftrightarrow> wav = []"
  unfolding clip_starts_def by (subst range_from.simps) simp

lemma clip_has_window_iff:
  assumes "0 < hop_size * rate" and "0 < window_size * rate"
    and "make_inference_batch input_wavs hop_size window_size rate pad_zero =
           Inr (wavs, masks, weights, bids)"
    and "bii < length input_wavs"
  shows "bii \<in> set bids \<longleftrightarrow> input_wavs ! bii \<noteq> []"
proof -
  define offset where "offset = hop_size * rate"
  define winlen where "winlen = window_size * rate"
  have pos: "0 < offset" and ne: "offset \<noteq> 0" "winlen \<noteq> 0"
    using assms(1,2) unfolding offset_def winlen_def by linarith+
  have B: "bids = map fst (batch_windows offset 0 input_wavs)"
    using assms(3) unfolding make_inference_batch_eq[OF offset_def winlen_def ne] by blast
  have "length (filter (\<lambda>b. b = bii) bids) = length (clip_starts offset (input_wavs ! bii))"
    unfolding B using assms(4) by (simp only: batch_windows_count) simp
  then have "filter (\<lambda>b. b = bii) bids = [] \<longleftrightarrow> input_wavs ! bii = []"
    using clip_starts_empty_iff[OF pos, of "input_wavs ! bii"] by (metis length_0_conv)
  then show ?thesis by (auto simp: filter_empty_conv)
qed

lemma clip_idx_empty_iff: "clip_idx bids bii = {} \<longleftrightarrow> bii \<notin> set bids"
  by (auto simp: clip_idx_def in_set_conv_nth)

lemma finite_clip_idx: "finite (clip_idx bids bii)"
  by (simp add: clip_idx_def)

lemma padded_window_lengths:
  assumes "0 < hop_size * rate" and "0 < window_size * rate"
    and "make_inference_batch input_wavs hop_size window_size rate True =
           Inr (wavs, masks, weights, bids)"
  shows "\<And>x. x \<in> set wavs \<Longrightarrow> length x = nat (window_size * rate)"
    and "\<And>m. m \<in> set masks \<Longrightarrow> length m = nat (window_size * rate)"
proof -
  define winlen where "winlen = window_size * rate"
  have win: "0 < winlen" using assms(2) by (simp add: winlen_def)
  note ls = make_inference_batch_lengths[OF assms]
  have nth: "length (wavs ! k) = nat winlen \<and> length (masks ! k) = nat winlen"
    if kk: "k < length weights" for k
  proof -
    obtain ii n where i: "0 \<le> ii" "ii < int (length (input_wavs ! (bids ! k)))"
      and n: "n = min (nat winlen) (length (input_wavs ! (bids ! k)) - nat ii)"
      and wa: "window_at (input_wavs ! (bids ! k)) winlen True ii = (wavs ! k, masks ! k, int n)"
      using make_inference_batch_nth[OF assms kk] unfolding winlen_def by blast
    have x: "wavs ! k = take (nat winlen) (drop (nat ii) (input_wavs ! (bids ! k)))
                          @ replicate (nat winlen - n) 0"
      and m: "masks ! k = replicate n True @ replicate (nat winlen - n) False"
      using wa unfolding window_at_eq[OF win i] Let_def n by simp_all
    have "n \<le> nat winlen" by (simp add: n)
    then show ?thesis by (simp add: x m n min.commute)
  qed
  show "length x = nat (window_size * rate)" if "x \<in> set wavs" for x
    using that nth ls unfolding winlen_def by (metis in_set_conv_nth)
  show "length m = nat (window_size * rate)" if "m \<in> set masks" for m
    using that nth ls unfolding winlen_def by (metis in_set_conv_nth)
qed

lemma weights_positive:
  assumes "0 < hop_size * rate" and "0 < window_size * rate"
    and "make_inference_batch input_wavs hop_size window_size rate pad_zero =
           Inr (wavs, masks, weights, bids)"
    and "k < length weights"
  shows "0 < weights ! k"
proof -
  obtain ii n where i: "0 \<le> ii" "ii < int (length (input_wavs ! (bids ! k)))"
    and n: "n = min (nat (window_size * rate)) (length (input_wavs ! (bids ! k)) - nat ii)"
    and wk: "weights ! k = real n / real (nat (window_size * rate))"
    using make_inference_batch_nth[OF assms] by blast
  define W where "W = nat (window_size * rate)"
  have "0 < W" using assms(2) by (simp add: W_def)
  moreover have "0 < n" using i assms(2) by (simp add: n)
  ultimately show ?thesis unfolding wk W_def[symmetric] by simp
qed

lemma forward_versa_rows:
  assumes sr: "0 < sample_rate self"
    and contract: "\<And>X M axis. axis \<in> set AXES_NAME \<Longrightarrow>
                     \<exists>raw. model self X M axis = Some raw \<and> length raw = length X"
    and some: "\<exists>clip\<in>set batch. librosa_resample (fst clip) (snd clip) (sample_rate self) \<noteq> []"
  obtains wavs masks weights bids where
    "make_inference_batch (audio_resample_mono_versa librosa_resample self batch)
        10 10 (sample_rate self) True = Inr (wavs, masks, weights, bids)"
    and "length masks = length wavs" and "length weights = length wavs"
    and "length bids = length wavs"
    and "forward_versa librosa_resample self batch =
           Inr (map (\<lambda>bii. map (\<lambda>axis. (axis, clip_score (target_transform self axis)
                                               (the (model self wavs masks axis)) weights bids bii))
                             AXES_NAME)
                  [0..<length batch])"
proof -
  let ?in = "audio_resample_mono_versa librosa_resample self batch"
  have pos: "0 < 10 * sample_rate self" using sr by simp
  then have ne: "10 * sample_rate self \<noteq> 0" by simp
  obtain wavs masks weights bids where
    mib: "make_inference_batch ?in 10 10 (sample_rate self) True = Inr (wavs, masks, weights, bids)"
    using make_inference_batch_eq[OF refl refl ne ne] by blast
  note ls = make_inference_batch_lengths[OF pos pos mib]
  obtain j where j: "j < length batch"
    and nonempty: "librosa_resample (fst (batch ! j)) (snd (batch ! j)) (sample_rate self) \<noteq> []"
    using some by (auto simp: in_set_conv_nth)
  have inj: "j < length ?in" "?in ! j \<noteq> []"
    using j nonempty by (simp_all add: audio_resample_mono_versa_def case_prod_beta)
  have "j \<in> set bids"
    using clip_has_window_iff[OF pos pos mib inj(1)] inj(2) by simp
  then have X: "wavs \<noteq> []" and M: "masks \<noteq> []" using ls by auto
  have sX: "torch_stack wavs = Inr wavs"
    using padded_window_lengths(1)[OF pos pos mib] by (rule torch_stack_same_length[OF X])
  have sM: "torch_stack masks = Inr masks"
    using padded_window_lengths(2)[OF pos pos mib] by (rule torch_stack_same_length[OF M])
  have c: "\<exists>raw. model self wavs masks axis = Some raw \<and> length raw = length bids"
    if "axis \<in> set AXES_NAME" for axis
    using contract[OF that, of wavs masks] ls by simp
  have w: "length weights = length bids" using ls by simp
  have ax: "AXES_NAME \<noteq> []" by (simp add: AXES_NAME_def)
  have "forward_versa librosa_resample self batch =
      Inr (all_rows_of (map (\<lambda>axis. (axis, map (clip_score (target_transform self axis)
                 (the (model self wavs masks axis)) weights bids) [0..<length batch])) AXES_NAME))"
    unfolding forward_versa_def Let_def mib
    by (simp add: sX sM ls axis_loop_eq[OF c w])
  then show thesis
    using that[OF mib] ls unfolding all_rows_of_eq[OF ax] by simp
qed

lemma row_lookup:
  "axis \<in> set axes \<Longrightarrow> map_of (map (\<lambda>a. (a, g a)) axes) axis = Some (g axis)"
  by (induction axes) auto

lemma weighted_mean_bounds:
  fixes s w :: "nat \<Rightarrow> real"
  assumes fin: "finite K" and ne: "K \<noteq> {}" and pos: "\<And>k. k \<in> K \<Longrightarrow> 0 < w k"
  shows "0 < (\<Sum>k\<in>K. w k)"
    and "Min (s ` K) \<le> (\<Sum>k\<in>K. s k * w k) / (\<Sum>k\<in>K. w k)"
    and "(\<Sum>k\<in>K. s k * w k) / (\<Sum>k\<in>K. w k) \<le> Max (s ` K)"
proof -
  show den: "0 < (\<Sum>k\<in>K. w k)"
    using fin ne pos by (intro sum_pos) auto
  have "(\<Sum>k\<in>K. Min (s ` K) * w k) \<le> (\<Sum>k\<in>K. s k * w k)"
  proof (rule sum_mono)
    fix k assume k: "k \<in> K"
    then have "Min (s ` K) \<le> s k" using fin by simp
    then show "Min (s ` K) * w k \<le> s k * w k"
      using pos[OF k] by (simp add: mult_right_mono)
  qed
  then have "Min (s ` K) * (\<Sum>k\<in>K. w k) \<le> (\<Sum>k\<in>K. s k * w k)"
    by (simp add: sum_distrib_left)
  then show "Min (s ` K) \<le> (\<Sum>k\<in>K. s k * w k) / (\<Sum>k\<in>K. w k)"
    using den by (simp add: pos_le_divide_eq)
  have "(\<Sum>k\<in>K. s k * w k) \<le> (\<Sum>k\<in>K. Max (s ` K) * w k)"
  proof (rule sum_mono)
    fix k assume k: "k \<in> K"
    then have "s k \<le> Max (s ` K)" using fin by simp
    then show "s k * w k \<le> Max (s ` K) * w k"
      using pos[OF k] by (simp add: mult_right_mono)
  qed
  then have "(\<Sum>k\<in>K. s k * w k) \<le> Max (s ` K) * (\<Sum>k\<in>K. w k)"
    by (simp add: sum_distrib_left)
  then show "(\<Sum>k\<in>K. s k * w k) / (\<Sum>k\<in>K. w k) \<le> Max (s ` K)"
    using den by (simp add: pos_divide_le_eq)
qed

lemma forward_versa_entry:
  assumes sr: "0 < sample_rate self"
    and contract: "\<And>X M axis. axis \<in> set AXES_NAME \<Longrightarrow>
                     \<exists>raw. model self X M axis = Some raw \<and> length raw = length X"
    and some: "\<exists>clip\<in>set batch. librosa_resample (fst clip) (snd clip) (sample_rate self) \<noteq> []"
    and bii: "bii < length batch" and axis: "axis \<in> set AXES_NAME"
  obtains wavs masks weights bids raw rows where
    "make_inference_batch (audio_resample_mono_versa librosa_resample self batch)
        10 10 (sample_rate self) True = Inr (wavs, masks, weights, bids)"
    and "model self wavs masks axis = Some raw"
    and "forward_versa librosa_resample self batch = Inr rows"
    and "length rows = length batch"
    and "map_of (rows ! bii) axis =
           Some (clip_score (target_transform self axis) raw weights bids bii)"
    and "clip_idx bids bii = {} \<longleftrightarrow>
           audio_resample_mono_versa librosa_resample self batch ! bii = []"
    and "\<And>k. k \<in> clip_idx bids bii \<Longrightarrow> 0 < weights ! k"
proof -
  let ?in = "audio_resample_mono_versa librosa_resample self batch"
  have pos: "0 < 10 * sample_rate self" using sr by simp
  obtain wavs masks weights bids where
    mib: "make_inference_batch ?in 10 10 (sample_rate self) True = Inr (wavs, masks, weights, bids)"
    and ls: "length masks = length wavs" "length weights = length wavs" "length bids = length wavs"
    and fv: "forward_versa librosa_resample self batch =
           Inr (map (\<lambda>bii. map (\<lambda>axis. (axis, clip_score (target_transform self axis)
                                               (the (model self wavs masks axis)) weights bids bii))
                             AXES_NAME)
                  [0..<length batch])"
    using forward_versa_rows[where librosa_resample = librosa_resample, OF sr contract some]
    by blast
  obtain raw where raw: "model self wavs masks axis = Some raw"
    using contract[OF axis] by blast
  define rows where "rows = map (\<lambda>bii. map (\<lambda>axis. (axis, clip_score (target_transform self axis)
                                               (the (model self wavs masks axis)) weights bids bii))
                             AXES_NAME) [0..<length batch]"
  have 1: "forward_versa librosa_resample self batch = Inr rows" by (simp add: fv rows_def)
  have 2: "length rows = length batch" by (simp add: rows_def)
  have 3: "map_of (rows ! bii) axis =
      Some (clip_score (target_transform self axis) raw weights bids bii)"
    using bii by (simp add: rows_def row_lookup[OF axis] raw)
  have lin: "bii < length ?in" using bii by (simp add: audio_resample_mono_versa_def)
  have 4: "clip_idx bids bii = {} \<longleftrightarrow> ?in ! bii = []"
    using clip_has_window_iff[OF pos pos mib lin] by (simp add: clip_idx_empty_iff)
  have 5: "0 < weights ! k" if "k \<in> clip_idx bids bii" for k
    using that ls weights_positive[OF pos pos mib, of k] by (simp add: clip_idx_def)
  show thesis using that[OF mib raw 1 2 3 4 5] by blast
qed

lemma batch_25_seconds:
  assumes len: "length wav = 400000"
    and mib: "make_inference_batch [wav] 10 10 16000 True = Inr (wavs, masks, weights, bids)"
  shows "weights = [1, 1, 1 / 2]" and "bids = [0, 0, 0]"
proof -
  have upt3: "[0..<3] = [0, 1, 2::nat]" by (simp add: upt_rec numeral_3_eq_3)
  have cs: "clip_starts 160000 wav = [0, 160000, 320000]"
    by (simp add: clip_starts_pos len upt3)
  have Q: "batch_windows 160000 0 [wav] = [(0, wav, 0), (0, wav, 160000), (0, wav, 320000)]"
    by (simp add: batch_windows_def cs)
  have w0: "snd (snd (window_at wav 160000 True 0)) = 160000"
    by (subst window_at_eq) (simp_all add: len Let_def)
  have w1: "snd (snd (window_at wav 160000 True 160000)) = 160000"
    by (subst window_at_eq) (simp_all add: len Let_def)
  have w2: "snd (snd (window_at wav 160000 True 320000)) = 80000"
    by (subst window_at_eq) (simp_all add: len Let_def)
  have eq: "make_inference_batch [wav] 10 10 16000 True =
     Inr (map (\<lambda>(bid, wav, ii). fst (window_at wav 160000 True ii)) (batch_windows 160000 0 [wav]),
          map (\<lambda>(bid, wav, ii). fst (snd (window_at wav 160000 True ii))) (batch_windows 160000 0 [wav]),
          map (\<lambda>(bid, wav, ii).
                 real_of_int (snd (snd (window_at wav 160000 True ii))) / real_of_int 160000)
            (batch_windows 160000 0 [wav]),
          map fst (batch_windows 160000 0 [wav]))"
    by (rule make_inference_batch_eq) simp_all
  from mib[unfolded eq]
  have W: "weights = map (\<lambda>(bid, wav, ii).
                 real_of_int (snd (snd (window_at wav 160000 True ii))) / real_of_int 160000)
            (batch_windows 160000 0 [wav])"
    and B: "bids = map fst (batch_windows 160000 0 [wav])"
    by blast+
  show "weights = [1, 1, 1 / 2]" unfolding W Q by (simp add: w0 w1 w2)
  show "bids = [0, 0, 0]" unfolding B Q by simp
qed

lemma clip_idx_three: "{k. k < length [0, 0, 0::nat] \<and> [0, 0, 0::nat] ! k = 0} = {0, 1, 2}"
  by (auto simp: less_Suc_eq nth_Cons')

lemma example_predictor_fields:
  "sample_rate example_predictor = 16000"
  "model example_predictor = ramp_backend"
  "target_transform example_predictor axis = \<lparr>mean = 0, std = 1\<rparr>"
  "dtype example_predictor = Some bfloat16"
  by (simp_all add: example_predictor_def AesWavlmPredictorMultiOutput_init_def setup_model_def
      example_checkpoint_def precision_dtypes_def Let_def)

lemma example_predictor_contract:
  "axis \<in> set AXES_NAME \<Longrightarrow>
   \<exists>raw. model example_predictor X M axis = Some raw \<and> length raw = length X"
  by (simp add: example_predictor_fields ramp_backend_def)

lemma example_hyps:
  "0 < sample_rate example_predictor"
  "\<forall>X M axis. axis \<in> set AXES_NAME \<longrightarrow>
      (\<exists>raw. model example_predictor X M axis = Some raw \<and> length raw = length X)"
  using example_predictor_contract by (simp add: example_predictor_fields, blast)

section \<open>Claims about the window segmenter\<close>

text \<open>
  Claim C2, as the code has it. For an empty waveform \<open>range(0, 0, offset)\<close> is empty, so
  the inner loop of \<open>make_inference_batch\<close> never runs: the segmenter yields no window
  at all, with zero-padding enabled as well as disabled (for a non-zero hop; a zero hop
  raises \<open>ValueError\<close>).
\<close>

theorem empty_waveform_yields_no_windows:
  assumes "hop_size * rate \<noteq> 0"
  shows "make_inference_batch [[]] hop_size window_size rate pad_zero = Inr ([], [], [], [])"
  using assms by (simp add: make_inference_batch_def py_range_def range_from.simps[of 0 0])

theorem empty_waveform_yields_no_windows_witness:
  "(10::int) * 16000 \<noteq> 0 \<and>
   make_inference_batch [[]] 10 10 16000 False = Inr ([], [], [], [])"
  using empty_waveform_yields_no_windows[of 10 16000 10 False] by simp

text \<open>
  The claim C2 as stated (one all-padding window of weight 0 when zero-padding is
  enabled) fails on the default configuration: the result has no window.
\<close>

theorem empty_waveform_padded_counterexample: "make_inference_batch [[]] 10 10 16000 True = Inr ([], [], [], [])"
  by (simp add: make_inference_batch_def py_range_def range_from.simps[of 0 0])



text \<open>
  Claim C5. With a positive hop and a positive window length, every window of the
  returned batch has a weight in \<open>(0, 1]\<close>, and the weight is 1 exactly when the number
  of real samples flagged by its mask is the full window length (no padding).
\<close>

theorem weight_bound:
  assumes "0 < hop_size * rate" and "0 < window_size * rate"
    and "make_inference_batch input_wavs hop_size window_size rate pad_zero =
           Inr (wavs, masks, weights, bids)"
    and "k < length weights"
  shows "0 < weights ! k \<and> weights ! k \<le> 1 \<and>
         (weights ! k = 1 \<longleftrightarrow>
            length (filter (\<lambda>b. b) (masks ! k)) = nat (window_size * rate))"
proof -
  define winlen where "winlen = window_size * rate"
  have win: "0 < winlen" using assms(2) by (simp add: winlen_def)
  obtain ii n where i: "0 \<le> ii" "ii < int (length (input_wavs ! (bids ! k)))"
    and n: "n = min (nat winlen) (length (input_wavs ! (bids ! k)) - nat ii)"
    and wa: "window_at (input_wavs ! (bids ! k)) winlen pad_zero ii = (wavs ! k, masks ! k, int n)"
    and wk: "weights ! k = real n / real (nat winlen)"
    using make_inference_batch_nth[OF assms] unfolding winlen_def by blast
  have npos: "0 < n" using i win by (simp add: n)
  have nle: "n \<le> nat winlen" by (simp add: n)
  have m: "masks ! k = replicate n True @ (if pad_zero then replicate (nat winlen - n) False else [])"
    using wa unfolding window_at_eq[OF win i] Let_def n by simp
  have cnt: "length (filter (\<lambda>b. b) (masks ! k)) = n"
    by (simp add: m)
  define W where "W = nat winlen"
  have Wpos: "0 < real W" using win by (simp add: W_def)
  note wk = wk[folded W_def]
  have "0 < weights ! k" using npos Wpos by (simp add: wk)
  moreover have "weights ! k \<le> 1" using nle Wpos by (simp add: wk W_def)
  moreover have "weights ! k = 1 \<longleftrightarrow> n = W" using Wpos by (auto simp: wk)
  ultimately show ?thesis unfolding cnt W_def winlen_def by blast
qed

theorem weight_bound_witness:
  "(0::int) < 2 * 1 \<and>
   make_inference_batch [[1, 2, 3]] 2 2 1 True =
     Inr ([[1, 2], [3, 0]], [[True, True], [True, False]], [1, 1 / 2], [0, 0]) \<and>
   (1::nat) < length [1, 1 / 2 :: real] \<and>
   0 < [1, 1 / 2 :: real] ! 1 \<and> [1, 1 / 2 :: real] ! 1 \<le> 1 \<and>
   ([1, 1 / 2 :: real] ! 1 = 1 \<longleftrightarrow>
      length (filter (\<lambda>b. b) ([[True, True], [True, False]] ! 1)) = nat (2 * 1))"
proof -
  have h: "make_inference_batch [[1, 2, 3]] 2 2 1 True =
      Inr ([[1, 2], [3, 0]], [[True, True], [True, False]], [1, 1 / 2], [0, 0])"
    by (simp add: make_inference_batch_def py_range_def range_from.simps window_step_def
        window_at_def py_slice_def slice_bound_def F_pad_def fill_true_def)
  have p: "(0::int) < 2 * 1" by simp
  have k: "(1::nat) < length [1, 1 / 2 :: real]" by simp
  show ?thesis using weight_bound[OF p p h k] h by simp
qed

text \<open>
  Claim C6, as the code has it. The code accepts any hop and window; the windows cover
  the waveform when the hop is positive and not longer than the window: sample \<open>j\<close> is
  then position \<open>p\<close> of the \<open>k\<close>-th window, which starts at \<open>k * hop\<close>, is flagged
  real by the mask and carries the value of the sample.
\<close>

theorem windows_cover_waveform:
  assumes off: "0 < hop_size * rate"
    and le: "hop_size * rate \<le> window_size * rate"
    and j: "j < length wav"
  shows "\<exists>wavs masks weights bids k p.
           make_inference_batch [wav] hop_size window_size rate pad_zero =
             Inr (wavs, masks, weights, bids) \<and>
           k < length wavs \<and> p < length (wavs ! k) \<and>
           int j = int k * (hop_size * rate) + int p \<and>
           masks ! k ! p \<and> wavs ! k ! p = wav ! j"
proof -
  define offset where "offset = hop_size * rate"
  define winlen where "winlen = window_size * rate"
  have pos: "0 < offset" "0 < winlen" and ow: "offset \<le> winlen"
    using off le by (simp_all add: offset_def winlen_def)
  then have ne: "offset \<noteq> 0" "winlen \<noteq> 0" by simp_all
  define k where "k = j div nat offset"
  define p where "p = j mod nat offset"
  define ii where "ii = int k * offset"
  define n where "n = min (nat winlen) (length wav - nat ii)"
  let ?Q = "batch_windows offset 0 [wav]"
  have jkp: "j = k * nat offset + p" by (simp add: k_def p_def)
  have p_lt: "p < nat offset" using pos(1) by (simp add: p_def)
  have ii_nat: "nat ii = k * nat offset"
    using pos(1) by (simp add: ii_def nat_mult_distrib)
  have ii0: "0 \<le> ii" using pos(1) by (simp add: ii_def)
  have ii_le: "nat ii \<le> j" by (simp add: ii_nat jkp)
  then have ii_lt: "ii < int (length wav)" using j ii0 by linarith
  have Q: "?Q = map (\<lambda>k. (0, wav, int k * offset))
                  [0..<nat ((int (length wav) + offset - 1) div offset)]"
    by (simp add: batch_windows_def clip_starts_pos[OF pos(1)] o_def)
  have "(int k + 1) * offset \<le> int (length wav) + offset - 1"
    using ii_lt by (simp add: ii_def algebra_simps)
  then have "((int k + 1) * offset) div offset \<le> (int (length wav) + offset - 1) div offset"
    using pos(1) by (intro zdiv_mono1) simp_all
  then have kn: "k < nat ((int (length wav) + offset - 1) div offset)"
    using pos(1) by simp
  then have kQ: "k < length ?Q" and Qk: "?Q ! k = (0, wav, ii)"
    by (simp_all add: Q ii_def)
  have p_n: "p < n"
    using p_lt ow j jkp ii_nat pos by (simp add: n_def) linarith
  have wa: "window_at wav winlen pad_zero ii =
      (take (nat winlen) (drop (nat ii) wav) @ (if pad_zero then replicate (nat winlen - n) 0 else []),
       replicate n True @ (if pad_zero then replicate (nat winlen - n) False else []), int n)"
    unfolding window_at_eq[OF pos(2) ii0 ii_lt] Let_def n_def by simp
  have len: "length (take (nat winlen) (drop (nat ii) wav)) = n"
    by (simp add: n_def min.commute)
  have x_len: "p < length (fst (window_at wav winlen pad_zero ii))"
    using p_n by (simp add: wa len del: length_take)
  have p_w: "p < nat winlen" using p_lt ow by linarith
  have x_val: "fst (window_at wav winlen pad_zero ii) ! p = wav ! j"
    using p_n len j ii_le p_w by (simp add: wa nth_append ii_nat jkp del: length_take)
  have m_val: "fst (snd (window_at wav winlen pad_zero ii)) ! p"
    using p_n by (simp add: wa nth_append)
  have idx: "int j = int k * offset + int p"
    using pos(1) by (simp add: jkp)
  define X where "X = map (\<lambda>(bid, wav, ii). fst (window_at wav winlen pad_zero ii)) ?Q"
  define M where "M = map (\<lambda>(bid, wav, ii). fst (snd (window_at wav winlen pad_zero ii))) ?Q"
  have "k < length X" "p < length (X ! k)" "M ! k ! p" "X ! k ! p = wav ! j"
    using kQ Qk x_len x_val m_val by (simp_all add: X_def M_def)
  then show ?thesis
    unfolding make_inference_batch_eq[OF offset_def winlen_def ne] offset_def[symmetric]
      X_def[symmetric] M_def[symmetric]
    using idx by blast
qed

theorem windows_cover_waveform_witness:
  "(0::int) < 2 * 1 \<and> (2::int) * 1 \<le> 3 * 1 \<and> (2::nat) < length [1, 2, 3 :: real] \<and>
   (\<exists>wavs masks weights bids k p.
      make_inference_batch [[1, 2, 3]] 2 3 1 True = Inr (wavs, masks, weights, bids) \<and>
      k < length wavs \<and> p < length (wavs ! k) \<and>
      int 2 = int k * (2 * 1) + int p \<and>
      masks ! k ! p \<and> wavs ! k ! p = [1, 2, 3] ! 2)"
  using windows_cover_waveform[of 2 1 3 2 "[1, 2, 3]" True] by simp

text \<open>
  The claim C6 as stated (any hop and window) fails when the hop is longer than the
  window: with a hop of 2 samples and a window of 1 sample, the waveform \<open>[1, 2, 3]\<close> is
  cut into the windows \<open>[1]\<close> and \<open>[3]\<close>, and the sample at index 1 is in neither.
\<close>

theorem coverage_gap_counterexample:
  "make_inference_batch [[1, 2, 3]] 2 1 1 True = Inr ([[1], [3]], [[True], [True]], [1, 1], [0, 0])"
  by (simp add: make_inference_batch_def py_range_def range_from.simps window_step_def
      window_at_def py_slice_def slice_bound_def F_pad_def fill_true_def)

text \<open>
  Claim C10. With zero-padding disabled (and a positive hop and window), every window
  of the returned batch is the bare slice of its clip at some start \<open>ii\<close>, of length
  \<open>min(winlen, L - ii)\<close>, and its mask is all true. Whenever the window is longer than
  one sample there is a clip whose batch holds two windows of different lengths.
\<close>

theorem unpadded_windows_keep_length:
  assumes "0 < hop_size * rate" and "0 < window_size * rate"
    and "make_inference_batch input_wavs hop_size window_size rate False =
           Inr (wavs, masks, weights, bids)"
    and "k < length wavs"
  shows "(\<exists>ii. 0 \<le> ii \<and> ii < int (length (input_wavs ! (bids ! k))) \<and>
           wavs ! k = take (nat (window_size * rate)) (drop (nat ii) (input_wavs ! (bids ! k))) \<and>
           int (length (wavs ! k)) =
             min (window_size * rate) (int (length (input_wavs ! (bids ! k))) - ii) \<and>
           masks ! k = replicate (length (wavs ! k)) True) \<and>
         (1 < window_size * rate \<longrightarrow>
            (\<exists>wav ws ms wts bs.
               make_inference_batch [wav] hop_size window_size rate False = Inr (ws, ms, wts, bs) \<and>
               length ws = 2 \<and> length (ws ! 0) \<noteq> length (ws ! 1)))"
proof -
  define winlen where "winlen = window_size * rate"
  have win: "0 < winlen" using assms(2) by (simp add: winlen_def)
  have "length weights = length wavs"
    using assms(1-3) make_inference_batch_lengths by blast
  then have kw: "k < length weights" using assms(4) by simp
  obtain ii n where i: "0 \<le> ii" "ii < int (length (input_wavs ! (bids ! k)))"
    and n: "n = min (nat winlen) (length (input_wavs ! (bids ! k)) - nat ii)"
    and wa: "window_at (input_wavs ! (bids ! k)) winlen False ii = (wavs ! k, masks ! k, int n)"
    using make_inference_batch_nth[OF assms(1-3) kw] unfolding winlen_def by blast
  have x: "wavs ! k = take (nat winlen) (drop (nat ii) (input_wavs ! (bids ! k)))"
    and m: "masks ! k = replicate n True"
    using wa unfolding window_at_eq[OF win i] Let_def n by simp_all
  have len: "length (wavs ! k) = n" by (simp add: x n min.commute)
  have "int n = min winlen (int (length (input_wavs ! (bids ! k))) - ii)"
    using win i by (simp add: n)
  then have "\<exists>ii. 0 \<le> ii \<and> ii < int (length (input_wavs ! (bids ! k))) \<and>
           wavs ! k = take (nat (window_size * rate)) (drop (nat ii) (input_wavs ! (bids ! k))) \<and>
           int (length (wavs ! k)) =
             min (window_size * rate) (int (length (input_wavs ! (bids ! k))) - ii) \<and>
           masks ! k = replicate (length (wavs ! k)) True"
    using i x m len unfolding winlen_def by auto
  then show ?thesis
    using unequal_windows_example[OF assms(1)] by blast
qed

theorem unpadded_windows_keep_length_witness:
  "(0::int) < 2 * 1 \<and>
   make_inference_batch [[1, 2, 3]] 2 2 1 False =
     Inr ([[1, 2], [3]], [[True, True], [True]], [1, 1 / 2], [0, 0]) \<and>
   (1::nat) < length [[1, 2], [3 :: real]] \<and>
   (\<exists>ii. 0 \<le> ii \<and> ii < int (length ([[1, 2, 3]] ! ([0, 0] ! 1))) \<and>
      [[1, 2], [3 :: real]] ! 1 = take (nat (2 * 1)) (drop (nat ii) ([[1, 2, 3]] ! ([0, 0] ! 1))) \<and>
      int (length ([[1, 2], [3 :: real]] ! 1)) =
        min (2 * 1) (int (length ([[1, 2, 3 :: real]] ! ([0, 0] ! 1))) - ii) \<and>
      [[True, True], [True]] ! 1 = replicate (length ([[1, 2], [3 :: real]] ! 1)) True) \<and>
   length ([[1, 2], [3 :: real]] ! 0) \<noteq> length ([[1, 2], [3 :: real]] ! 1)"
proof -
  have h: "make_inference_batch [[1, 2, 3]] 2 2 1 False =
      Inr ([[1, 2], [3]], [[True, True], [True]], [1, 1 / 2], [0, 0])"
    by (simp add: make_inference_batch_def py_range_def range_from.simps window_step_def
        window_at_def py_slice_def slice_bound_def F_pad_def fill_true_def)
  have p: "(0::int) < 2 * 1" by simp
  have k: "(1::nat) < length [[1, 2], [3 :: real]]" by simp
  show ?thesis using unpadded_windows_keep_length[OF p p h k] h by simp
qed

section \<open>Claims about the aggregation and the pipeline\<close>

text \<open>
  In the theorems of this section the predictor \<open>self\<close> has a positive sample rate
  (the constructor sets 16000), the scoring backend returns one raw score per window on
  each of the four axes, and at least one clip of the batch has a sample, so that the
  batch has a window to stack.
\<close>




text \<open>
  Claim C3. For every clip \<open>bii\<close> of the batch and every axis, the value stored in the
  record of the clip is the quotient, as tensors divide, of
  \<open>\<Sum> (raw * std + mean) * weight\<close> by \<open>\<Sum> weight\<close> over the windows that carry the
  clip index \<open>bii\<close>; for a clip with a sample it is the finite weighted mean. For one clip
  of 400000 samples (25 seconds at 16000 Hz) the weights are \<open>[1, 1, 1/2]\<close> and the score is
  \<open>(a0 * 1.0 + a1 * 1.0 + a2 * 0.5) / (1.0 + 1.0 + 0.5)\<close> for the de-normalised window
  scores \<open>a0, a1, a2\<close>.
\<close>

theorem aggregated_score_is_weighted_mean:
  assumes "0 < sample_rate self"
    and "\<forall>X M axis. axis \<in> set AXES_NAME \<longrightarrow>
           (\<exists>raw. model self X M axis = Some raw \<and> length raw = length X)"
    and "\<exists>clip\<in>set batch. librosa_resample (fst clip) (snd clip) (sample_rate self) \<noteq> []"
    and "bii < length batch" and "axis \<in> set AXES_NAME"
  shows "\<exists>wavs masks weights bids raw rows.
           make_inference_batch (audio_resample_mono_versa librosa_resample self batch)
             10 10 (sample_rate self) True = Inr (wavs, masks, weights, bids) \<and>
           model self wavs masks axis = Some raw \<and>
           forward_versa librosa_resample self batch = Inr rows \<and>
           map_of (rows ! bii) axis =
             Some (torch_div
                     (\<Sum>k | k < length bids \<and> bids ! k = bii.
                        (raw ! k * std (target_transform self axis) + mean (target_transform self axis))
                        * weights ! k)
                     (\<Sum>k | k < length bids \<and> bids ! k = bii. weights ! k)) \<and>
           (audio_resample_mono_versa librosa_resample self batch ! bii \<noteq> [] \<longrightarrow>
              map_of (rows ! bii) axis =
                Some (Fin ((\<Sum>k | k < length bids \<and> bids ! k = bii.
                              (raw ! k * std (target_transform self axis)
                               + mean (target_transform self axis)) * weights ! k)
                           / (\<Sum>k | k < length bids \<and> bids ! k = bii. weights ! k)))) \<and>
           (sample_rate self = 16000 \<and> length batch = 1 \<and>
            length (audio_resample_mono_versa librosa_resample self batch ! bii) = 400000 \<longrightarrow>
              weights = [1, 1, 1 / 2] \<and> bids = [0, 0, 0] \<and>
              map_of (rows ! bii) axis =
                Some (Fin (((raw ! 0 * std (target_transform self axis) + mean (target_transform self axis)) * 1.0
                            + (raw ! 1 * std (target_transform self axis) + mean (target_transform self axis)) * 1.0
                            + (raw ! 2 * std (target_transform self axis) + mean (target_transform self axis)) * 0.5)
                           / (1.0 + 1.0 + 0.5))))"
proof -
  let ?in = "audio_resample_mono_versa librosa_resample self batch"
  have contract: "\<exists>raw. model self X M axis = Some raw \<and> length raw = length X"
    if "axis \<in> set AXES_NAME" for X M axis
    using assms(2) that by blast
  show ?thesis
  proof (rule forward_versa_entry[where librosa_resample = librosa_resample,
        OF assms(1) contract assms(3-5)])
    fix wavs masks weights bids raw rows
    assume mib: "make_inference_batch ?in 10 10 (sample_rate self) True = Inr (wavs, masks, weights, bids)"
      and raw: "model self wavs masks axis = Some raw"
      and fv: "forward_versa librosa_resample self batch = Inr rows"
      and len: "length rows = length batch"
      and entry: "map_of (rows ! bii) axis =
             Some (clip_score (target_transform self axis) raw weights bids bii)"
      and emp: "clip_idx bids bii = {} \<longleftrightarrow> ?in ! bii = []"
      and wpos: "\<And>k. k \<in> clip_idx bids bii \<Longrightarrow> 0 < weights ! k"
    define a where "a = (\<lambda>k. raw ! k * std (target_transform self axis) + mean (target_transform self axis))"
    define num where "num = (\<Sum>k\<in>clip_idx bids bii. a k * weights ! k)"
    define den where "den = (\<Sum>k\<in>clip_idx bids bii. weights ! k)"
    have score: "map_of (rows ! bii) axis = Some (torch_div num den)"
      by (simp add: entry clip_score_def num_def den_def a_def)
    have fin: "map_of (rows ! bii) axis = Some (Fin (num / den))" if "?in ! bii \<noteq> []"
    proof -
      have "clip_idx bids bii \<noteq> {}" using that emp by simp
      then have "0 < den"
        unfolding den_def
        using weighted_mean_bounds(1)[OF finite_clip_idx, of bids bii "\<lambda>k. weights ! k"] wpos
        by blast
      then show ?thesis by (simp add: score torch_div_def)
    qed
    have scen: "weights = [1, 1, 1 / 2] \<and> bids = [0, 0, 0] \<and>
        map_of (rows ! bii) axis = Some (Fin ((a 0 * 1.0 + a 1 * 1.0 + a 2 * 0.5) / (1.0 + 1.0 + 0.5)))"
      if sr: "sample_rate self = 16000" and one: "length batch = 1"
        and l: "length (?in ! bii) = 400000"
    proof -
      have b0: "bii = 0" using assms(4) one by simp
      have "length ?in = 1" using one by (simp add: audio_resample_mono_versa_def)
      then have single: "?in = [?in ! 0]"
        by (cases ?in) simp_all
      have mib': "make_inference_batch [?in ! 0] 10 10 16000 True = Inr (wavs, masks, weights, bids)"
        using mib single sr by simp
      have W: "weights = [1, 1, 1 / 2]" and B: "bids = [0, 0, 0]"
        using batch_25_seconds[OF l[unfolded b0] mib'] by simp_all
      have K: "clip_idx bids bii = {0, 1, 2}"
        unfolding clip_idx_def B b0 by (rule clip_idx_three)
      have ne: "?in ! bii \<noteq> []" using l by auto
      have n: "num = a 0 * 1 + a 1 * 1 + a 2 * (1 / 2)"
        unfolding num_def K W by simp
      have d: "den = 1 + 1 + 1 / 2"
        unfolding den_def K W by simp
      show ?thesis using fin[OF ne] W B unfolding n d by simp
    qed
    note score' = score[unfolded num_def den_def a_def clip_idx_def]
    have fin': "?in ! bii \<noteq> [] \<longrightarrow> map_of (rows ! bii) axis = Some (Fin (num / den))"
      using fin by blast
    note fin'' = fin'[unfolded num_def den_def a_def clip_idx_def]
    have scen': "sample_rate self = 16000 \<and> length batch = 1 \<and> length (?in ! bii) = 400000 \<longrightarrow>
        weights = [1, 1, 1 / 2] \<and> bids = [0, 0, 0] \<and>
        map_of (rows ! bii) axis = Some (Fin ((a 0 * 1.0 + a 1 * 1.0 + a 2 * 0.5) / (1.0 + 1.0 + 0.5)))"
      using scen by blast
    note scen'' = scen'[unfolded a_def]
    show ?thesis
      by (rule exI[of _ wavs], rule exI[of _ masks], rule exI[of _ weights], rule exI[of _ bids],
          rule exI[of _ raw], rule exI[of _ rows])
        (intro conjI mib raw fv score' fin'' scen'')
  qed
qed

theorem aggregated_score_is_weighted_mean_witness:
  "0 < sample_rate example_predictor \<and>
   model example_predictor = ramp_backend \<and>
   (\<exists>clip\<in>set [(replicate 400000 0, 16000)].
      same_rate_resample (fst clip) (snd clip) (sample_rate example_predictor) \<noteq> []) \<and>
   (0::nat) < length [(replicate 400000 (0::real), 16000::int)] \<and>
   ''CE'' \<in> set AXES_NAME \<and>
   (\<exists>rows. forward_versa same_rate_resample example_predictor [(replicate 400000 0, 16000)] = Inr rows \<and>
      map_of (rows ! 0) ''CE'' = Some (Fin (4 / 5)))"
proof -
  let ?batch = "[(replicate 400000 (0::real), 16000::int)]"
  let ?in = "audio_resample_mono_versa same_rate_resample example_predictor ?batch"
  let ?t = "target_transform example_predictor ''CE''"
  note h1 = example_hyps(1) and h2 = example_hyps(2)
  have h3: "\<exists>clip\<in>set ?batch.
      same_rate_resample (fst clip) (snd clip) (sample_rate example_predictor) \<noteq> []"
    by (simp add: same_rate_resample_def)
  have h4: "(0::nat) < length ?batch" by simp
  have h5: "''CE'' \<in> set AXES_NAME" by (simp add: AXES_NAME_def)
  have inp: "?in = [replicate 400000 0]"
    by (simp add: audio_resample_mono_versa_def same_rate_resample_def)
  from aggregated_score_is_weighted_mean[where librosa_resample = same_rate_resample and batch = ?batch,
      OF h1 h2 h3 h4 h5]
  obtain wavs masks and weights :: "real list" and bids :: "nat list" and raw rows where
    mib: "make_inference_batch ?in 10 10 (sample_rate example_predictor) True =
            Inr (wavs, masks, weights, bids)"
    and raw: "model example_predictor wavs masks ''CE'' = Some raw"
    and fv: "forward_versa same_rate_resample example_predictor ?batch = Inr rows"
    and scen: "sample_rate example_predictor = 16000 \<and> length ?batch = 1 \<and>
            length (?in ! 0) = 400000 \<longrightarrow>
              weights = [1, 1, 1 / 2] \<and> bids = [0, 0, 0] \<and>
              map_of (rows ! 0) ''CE'' =
                Some (Fin (((raw ! 0 * std ?t + mean ?t) * 1.0
                            + (raw ! 1 * std ?t + mean ?t) * 1.0
                            + (raw ! 2 * std ?t + mean ?t) * 0.5)
                           / (1.0 + 1.0 + 0.5)))"
    by (elim exE conjE) (rule that; assumption)
  have prem: "sample_rate example_predictor = 16000 \<and> length ?batch = 1 \<and>
            length (?in ! 0) = 400000"
    by (simp add: example_predictor_fields inp)
  have W: "weights = [1, 1, 1 / 2]"
    and score: "map_of (rows ! 0) ''CE'' =
                Some (Fin (((raw ! 0 * std ?t + mean ?t) * 1.0
                            + (raw ! 1 * std ?t + mean ?t) * 1.0
                            + (raw ! 2 * std ?t + mean ?t) * 0.5)
                           / (1.0 + 1.0 + 0.5)))"
    using scen prem by blast+
  have pos: "(0::int) < 10 * sample_rate example_predictor" by (simp add: example_predictor_fields)
  have "length wavs = 3"
    using make_inference_batch_lengths[OF pos pos mib] W by simp
  then have r: "raw = [0, 1, 2]"
    using raw by (simp add: example_predictor_fields ramp_backend_def upt_rec numeral_3_eq_3)
  have "map_of (rows ! 0) ''CE'' = Some (Fin (4 / 5))"
    unfolding score r by (simp add: example_predictor_fields)
  then have "\<exists>rows. forward_versa same_rate_resample example_predictor ?batch = Inr rows \<and>
      map_of (rows ! 0) ''CE'' = Some (Fin (4 / 5))"
    using fv by blast
  then show ?thesis using h1 h3 h4 h5 example_predictor_fields(2) by blast
qed



text \<open>
  Claim C8, as the code has it. On a batch with at least one window \<open>forward_versa\<close>
  returns exactly one record per clip; the record at position \<open>bii\<close> has the keys
  \<open>CE, CU, PC, PQ\<close> in this order and holds the scores aggregated over the windows with
  clip index \<open>bii\<close>, each of which was cut from the clip at that position of the input.
  In the chunk loop of \<open>main_predict\<close> a result is returned only when the number of
  outputs equals the number of input records; a different number raises
  \<open>AssertionError\<close>.
\<close>

theorem one_record_per_clip:
  assumes "0 < sample_rate self"
    and "\<forall>X M axis. axis \<in> set AXES_NAME \<longrightarrow>
           (\<exists>raw. model self X M axis = Some raw \<and> length raw = length X)"
    and "\<exists>clip\<in>set batch. librosa_resample (fst clip) (snd clip) (sample_rate self) \<noteq> []"
  shows "(\<exists>wavs masks weights bids rows.
            make_inference_batch (audio_resample_mono_versa librosa_resample self batch)
              10 10 (sample_rate self) True = Inr (wavs, masks, weights, bids) \<and>
            forward_versa librosa_resample self batch = Inr rows \<and>
            length rows = length batch \<and>
            (\<forall>bii<length batch.
               map fst (rows ! bii) = [''CE'', ''CU'', ''PC'', ''PQ''] \<and>
               (\<forall>axis\<in>set AXES_NAME. \<exists>raw.
                  model self wavs masks axis = Some raw \<and>
                  map_of (rows ! bii) axis =
                    Some (torch_div
                            (\<Sum>k | k < length bids \<and> bids ! k = bii.
                               (raw ! k * std (target_transform self axis)
                                + mean (target_transform self axis)) * weights ! k)
                            (\<Sum>k | k < length bids \<and> bids ! k = bii. weights ! k)))) \<and>
            (\<forall>k<length wavs.
               bids ! k < length batch \<and>
               (\<exists>ii. 0 \<le> ii \<and>
                  ii < int (length (audio_resample_mono_versa librosa_resample self batch ! (bids ! k))) \<and>
                  wavs ! k =
                    fst (window_at (audio_resample_mono_versa librosa_resample self batch ! (bids ! k))
                           (10 * sample_rate self) True ii)))) \<and>
         (\<forall>outputs. main_predict_outputs forward metadata bsize = Inr outputs \<longrightarrow>
            length outputs = length metadata) \<and>
         (\<forall>iis outputs.
            py_range 0 (int (length metadata)) bsize = Inr iis \<and>
            chunk_loop forward metadata bsize iis [] = Inr outputs \<and>
            length outputs \<noteq> length metadata \<longrightarrow>
              main_predict_outputs forward metadata bsize = Inl AssertionError)"
proof -
  let ?in = "audio_resample_mono_versa librosa_resample self batch"
  have contract: "\<exists>raw. model self X M axis = Some raw \<and> length raw = length X"
    if "axis \<in> set AXES_NAME" for X M axis
    using assms(2) that by blast
  have pos: "0 < 10 * sample_rate self" using assms(1) by simp
  have A: "\<exists>wavs masks weights bids rows.
            make_inference_batch ?in 10 10 (sample_rate self) True = Inr (wavs, masks, weights, bids) \<and>
            forward_versa librosa_resample self batch = Inr rows \<and>
            length rows = length batch \<and>
            (\<forall>bii<length batch.
               map fst (rows ! bii) = [''CE'', ''CU'', ''PC'', ''PQ''] \<and>
               (\<forall>axis\<in>set AXES_NAME. \<exists>raw.
                  model self wavs masks axis = Some raw \<and>
                  map_of (rows ! bii) axis =
                    Some (torch_div
                            (\<Sum>k | k < length bids \<and> bids ! k = bii.
                               (raw ! k * std (target_transform self axis)
                                + mean (target_transform self axis)) * weights ! k)
                            (\<Sum>k | k < length bids \<and> bids ! k = bii. weights ! k)))) \<and>
            (\<forall>k<length wavs.
               bids ! k < length batch \<and>
               (\<exists>ii. 0 \<le> ii \<and> ii < int (length (?in ! (bids ! k))) \<and>
                  wavs ! k = fst (window_at (?in ! (bids ! k)) (10 * sample_rate self) True ii)))"
  proof (rule forward_versa_rows[where librosa_resample = librosa_resample,
        OF assms(1) contract assms(3)])
    fix wavs masks weights bids
    assume mib: "make_inference_batch ?in 10 10 (sample_rate self) True = Inr (wavs, masks, weights, bids)"
      and ls: "length masks = length wavs" "length weights = length wavs" "length bids = length wavs"
      and fv: "forward_versa librosa_resample self batch =
           Inr (map (\<lambda>bii. map (\<lambda>axis. (axis, clip_score (target_transform self axis)
                                               (the (model self wavs masks axis)) weights bids bii))
                             AXES_NAME)
                  [0..<length batch])"
    define rows where "rows = map (\<lambda>bii. map (\<lambda>axis. (axis, clip_score (target_transform self axis)
                                               (the (model self wavs masks axis)) weights bids bii))
                             AXES_NAME) [0..<length batch]"
    have 1: "forward_versa librosa_resample self batch = Inr rows" by (simp add: fv rows_def)
    have 2: "length rows = length batch" by (simp add: rows_def)
    have 3: "map fst (rows ! bii) = [''CE'', ''CU'', ''PC'', ''PQ'']" if "bii < length batch" for bii
      using that by (simp add: rows_def o_def AXES_NAME_def)
    have 4: "\<exists>raw. model self wavs masks axis = Some raw \<and>
                  map_of (rows ! bii) axis =
                    Some (torch_div
                            (\<Sum>k | k < length bids \<and> bids ! k = bii.
                               (raw ! k * std (target_transform self axis)
                                + mean (target_transform self axis)) * weights ! k)
                            (\<Sum>k | k < length bids \<and> bids ! k = bii. weights ! k))"
      if b: "bii < length batch" and a: "axis \<in> set AXES_NAME" for bii axis
    proof -
      obtain raw where raw: "model self wavs masks axis = Some raw"
        using contract[OF a] by blast
      have "map_of (rows ! bii) axis =
          Some (clip_score (target_transform self axis) raw weights bids bii)"
        using b by (simp add: rows_def row_lookup[OF a] raw)
      then show ?thesis using raw unfolding clip_score_def clip_idx_def by blast
    qed
    have 5: "bids ! k < length batch \<and>
        (\<exists>ii. 0 \<le> ii \<and> ii < int (length (?in ! (bids ! k))) \<and>
           wavs ! k = fst (window_at (?in ! (bids ! k)) (10 * sample_rate self) True ii))"
      if k: "k < length wavs" for k
    proof -
      have kw: "k < length weights" using k ls by simp
      obtain ii n where b: "bids ! k < length ?in"
        and i: "0 \<le> ii" "ii < int (length (?in ! (bids ! k)))"
        and w: "window_at (?in ! (bids ! k)) (10 * sample_rate self) True ii = (wavs ! k, masks ! k, int n)"
        using make_inference_batch_nth[OF pos pos mib kw] by metis
      have "wavs ! k = fst (window_at (?in ! (bids ! k)) (10 * sample_rate self) True ii)"
        by (simp add: w)
      moreover have "bids ! k < length batch"
        using b by (simp add: audio_resample_mono_versa_def)
      ultimately show ?thesis using i by blast
    qed
    show ?thesis
      by (rule exI[of _ wavs], rule exI[of _ masks], rule exI[of _ weights], rule exI[of _ bids],
          rule exI[of _ rows]) (use mib 1 2 3 4 5 in blast)
  qed
  have B: "\<forall>outputs. main_predict_outputs forward metadata bsize = Inr outputs \<longrightarrow>
            length outputs = length metadata"
    by (auto simp: main_predict_outputs_def split: sum.splits if_splits)
  have C: "\<forall>iis outputs.
            py_range 0 (int (length metadata)) bsize = Inr iis \<and>
            chunk_loop forward metadata bsize iis [] = Inr outputs \<and>
            length outputs \<noteq> length metadata \<longrightarrow>
              main_predict_outputs forward metadata bsize = Inl AssertionError"
    by (auto simp: main_predict_outputs_def)
  show ?thesis by (intro conjI A B C)
qed

theorem one_record_per_clip_witness:
  "0 < sample_rate example_predictor \<and>
   model example_predictor = ramp_backend \<and>
   (\<exists>clip\<in>set [([], 16000), ([1], 16000)].
      same_rate_resample (fst clip) (snd clip) (sample_rate example_predictor) \<noteq> []) \<and>
   (\<exists>rows. forward_versa same_rate_resample example_predictor [([], 16000), ([1], 16000)] = Inr rows \<and>
      length rows = 2 \<and>
      map fst (rows ! 0) = [''CE'', ''CU'', ''PC'', ''PQ''] \<and>
      map fst (rows ! 1) = [''CE'', ''CU'', ''PC'', ''PQ'']) \<and>
   main_predict_outputs Inr [1, 2, 3 :: nat] 2 = Inr [1, 2, 3] \<and>
   length [1, 2, 3 :: nat] = 3"
proof -
  let ?batch = "[([], 16000), ([1::real], 16000::int)]"
  note h1 = example_hyps(1) and h2 = example_hyps(2)
  have h3: "\<exists>clip\<in>set ?batch.
      same_rate_resample (fst clip) (snd clip) (sample_rate example_predictor) \<noteq> []"
    by (simp add: same_rate_resample_def)
  note inst = one_record_per_clip[where librosa_resample = same_rate_resample and batch = ?batch
      and forward = Inr and metadata = "[1, 2, 3 :: nat]" and bsize = 2, OF h1 h2 h3]
  have A: "\<exists>rows. forward_versa same_rate_resample example_predictor ?batch = Inr rows \<and>
      length rows = 2 \<and>
      map fst (rows ! 0) = [''CE'', ''CU'', ''PC'', ''PQ''] \<and>
      map fst (rows ! 1) = [''CE'', ''CU'', ''PC'', ''PQ'']"
    using inst[THEN conjunct1] by (elim exE conjE) auto
  have run: "main_predict_outputs Inr [1, 2, 3 :: nat] 2 = Inr [1, 2, 3]"
    by (simp add: main_predict_outputs_def py_range_def range_from.simps py_slice_def
        slice_bound_def)
  have B: "length [1, 2, 3 :: nat] = 3"
    using inst[THEN conjunct2, THEN conjunct1] run by simp
  show ?thesis using h1 example_predictor_fields(2) h3 A run B by blast
qed

text \<open>
  The claim C8 as stated (every input list of clips) fails on a batch without any
  window: for the empty list of clips and for a single empty clip \<open>torch.stack\<close> is
  given an empty list and \<open>forward_versa\<close> raises \<open>RuntimeError\<close> instead of returning
  records.
\<close>

theorem windowless_batch_counterexample:
  "forward_versa same_rate_resample example_predictor [] = Inl RuntimeError \<and>
   forward_versa same_rate_resample example_predictor [([], 16000)] = Inl RuntimeError"
  by (simp add: forward_versa_def audio_resample_mono_versa_def same_rate_resample_def
      example_predictor_fields make_inference_batch_def py_range_def range_from.simps[of 0 0]
      torch_stack_def)

text \<open>
  Claim C9, evaluated on the code. For a precision string outside the table the
  constructor logs the warning that float32 is used instead, and \<open>setup_model\<close> then
  overwrites \<open>dtype\<close> by a lookup without default: the constructed predictor has no
  dtype (\<open>None\<close>), not float32.
\<close>

theorem unsupported_precision_leaves_no_dtype:
  assumes "prec \<noteq> ''16''" and "prec \<noteq> ''bf16''"
  shows "fst (AesWavlmPredictorMultiOutput_init ckpt pth prec bsize dev) =
           [''Precision '' @ prec @ '' is not supported, using float32 instead.''] \<and>
         dtype (snd (AesWavlmPredictorMultiOutput_init ckpt pth prec bsize dev)) = None"
  using assms
  by (simp add: AesWavlmPredictorMultiOutput_init_def setup_model_def precision_dtypes_def Let_def)

theorem unsupported_precision_leaves_no_dtype_witness:
  "''32'' \<noteq> ''16'' \<and> ''32'' \<noteq> ''bf16'' \<and>
   fst (AesWavlmPredictorMultiOutput_init example_checkpoint ''checkpoint.pt'' ''32'' 1 ''cpu'') =
     [''Precision 32 is not supported, using float32 instead.''] \<and>
   dtype (snd (AesWavlmPredictorMultiOutput_init example_checkpoint ''checkpoint.pt'' ''32'' 1 ''cpu''))
     = None"
  using unsupported_precision_leaves_no_dtype[of "''32''" example_checkpoint "''checkpoint.pt''" 1 "''cpu''"] by simp

end
